theory Spec2Isabelle
  imports Main "HOL-Library.Sublist" "HOL-Library.Multiset" "HOL-Library.Product_Lexorder"
begin

section \<open>Data model\<close>

text \<open>
  The catalogue types (ROM, Game, Machine, Header, DAT) are declared outside the modules that
  are verified here; the modules only reach them through getters.  Each class is a record
  whose fields are the getters the modules call.  \<open>ROM.hashCode()\<close> is computed by the ROM
  class itself, so every function that calls it takes it as the parameter \<open>hashCode\<close>.
\<close>

record rom =
  rom_name :: string
  rom_size :: nat
  rom_fingerprint :: string
  rom_merge :: "string option"
  rom_bios :: bool

text \<open>
  A game.  \<open>game_parent\<close> is \<open>getParent()\<close> and \<open>game_bios\<close> is \<open>getBios()\<close>; the modules
  test both for truthiness, so the empty string is "none".  \<open>game_isMachine\<close> is
  \<open>game instanceof Machine\<close>, and \<open>game_deviceRefs\<close> are the names of \<open>getDeviceRefs()\<close>.
\<close>

record game =
  game_name :: string
  game_parent :: string
  game_bios :: string
  game_roms :: "rom list"
  game_isMachine :: bool
  game_deviceRefs :: "string list"

record header =
  header_name :: string
  header_description :: string
  header_version :: string
  header_date :: string
  header_url :: string
  header_comment :: string
  romNamesContainDirectories :: bool

record dat =
  dat_header :: header
  dat_games :: "game list"

section \<open>Arrays\<close>

text \<open>
  \<open>Array.prototype.sort(compareFn)\<close> is stable: elements that compare equal keep their
  order.  For a consistent comparator every stable sort returns the same array, so the
  model is the stable insertion sort; an element goes before another when \<open>compareFn\<close> is
  not positive.
\<close>

fun insertBy :: "('a \<Rightarrow> 'a \<Rightarrow> int) \<Rightarrow> 'a \<Rightarrow> 'a list \<Rightarrow> 'a list" where
  "insertBy compareFn x [] = [x]"
| "insertBy compareFn x (y # ys) =
     (if compareFn x y \<le> 0 then x # y # ys else y # insertBy compareFn x ys)"

definition arraySort :: "('a \<Rightarrow> 'a \<Rightarrow> int) \<Rightarrow> 'a list \<Rightarrow> 'a list" where
  "arraySort compareFn xs = foldr (insertBy compareFn) xs []"

text \<open>\<open>Array.prototype.indexOf\<close>: the first index of the element, or -1.\<close>

fun indexOf :: "'a list \<Rightarrow> 'a \<Rightarrow> int" where
  "indexOf [] x = - 1"
| "indexOf (y # ys) x =
     (if y = x then 0 else (let i = indexOf ys x in if i < 0 then - 1 else i + 1))"

text \<open>\<open>Array.prototype.filter\<close> with a callback that also reads the index.\<close>

definition filterIdx :: "('a \<Rightarrow> int \<Rightarrow> bool) \<Rightarrow> 'a list \<Rightarrow> 'a list" where
  "filterIdx p xs = map fst (filter (\<lambda>(x, idx). p x idx) (zip xs (map int [0..<length xs])))"

text \<open>
  \<open>String.prototype.replace\<close> with a one-character string pattern and a replacement
  without \<open>$\<close>: only the first occurrence of the pattern is replaced.
\<close>

fun replaceFirst :: "char \<Rightarrow> string \<Rightarrow> string \<Rightarrow> string" where
  "replaceFirst pattern replacement [] = []"
| "replaceFirst pattern replacement (c # cs) =
     (if c = pattern then replacement @ cs else c # replaceFirst pattern replacement cs)"

text \<open>
  A comparator is consistent when "not positive" is a total and transitive relation; the
  sorts are specified for such comparators.
\<close>

definition totalPreorder :: "('a \<Rightarrow> 'a \<Rightarrow> int) \<Rightarrow> bool" where
  "totalPreorder c \<longleftrightarrow>
     (\<forall>a b. c a b \<le> 0 \<or> c b a \<le> 0) \<and> (\<forall>a b d. c a b \<le> 0 \<and> c b d \<le> 0 \<longrightarrow> c a d \<le> 0)"

text \<open>
  Dropping duplicates by a key, the first occurrence winning: an element is kept when no
  earlier element has its key.  \<open>seen\<close> holds the keys of the elements already passed.
\<close>

fun keepFirst :: "('a \<Rightarrow> 'k) \<Rightarrow> 'k set \<Rightarrow> 'a list \<Rightarrow> 'a list" where
  "keepFirst key seen [] = []"
| "keepFirst key seen (x # xs) =
     (if key x \<in> seen then [] else [x]) @ keepFirst key (insert (key x) seen) xs"

definition firstOccurrences :: "('a \<Rightarrow> 'k) \<Rightarrow> 'a list \<Rightarrow> 'a list" where
  "firstOccurrences key xs = keepFirst key {} xs"

section \<open>Fixdat generator\<close>

record romWithFiles =
  rwf_rom :: rom
  rwf_inputFile :: string
  rwf_outputFile :: string

record releaseCandidate =
  rc_romsWithFiles :: "romWithFiles list"

text \<open>
  \<open>Map<Parent, ReleaseCandidate[]>\<close> is keyed by object identity and iterated in insertion
  order: an association list whose keys are the parents' games.
\<close>

type_synonym parentsToCandidates = "(game list \<times> releaseCandidate list) list"

record fixdatOptions =
  shouldFixdat :: bool
  homepage :: string
  commentText :: string

text \<open>The list of ROMs that have a release candidate, in the order \<open>create\<close> visits them.\<close>

definition candidateRoms :: "parentsToCandidates \<Rightarrow> rom list" where
  "candidateRoms parentsToCandidates =
     map rwf_rom (concat (map rc_romsWithFiles (concat (map snd parentsToCandidates))))"

text \<open>\<open>new Set(... .map((rom) => rom.hashCode()))\<close>\<close>

definition writtenRomHashCodes :: "(rom \<Rightarrow> string) \<Rightarrow> parentsToCandidates \<Rightarrow> string set" where
  "writtenRomHashCodes hashCode parentsToCandidates =
     set (map hashCode (candidateRoms parentsToCandidates))"

text \<open>
  \<open>originalDat.getGames().filter((game) => !game.getRoms().every((rom) =>
  writtenRomHashCodes.has(rom.hashCode())))\<close>
\<close>

definition gamesWithMissingRoms ::
  "(rom \<Rightarrow> string) \<Rightarrow> dat \<Rightarrow> parentsToCandidates \<Rightarrow> game list" where
  "gamesWithMissingRoms hashCode originalDat parentsToCandidates =
     filter (\<lambda>game. \<not> list_all (\<lambda>rom. hashCode rom \<in> writtenRomHashCodes hashCode parentsToCandidates)
                                 (game_roms game))
            (dat_games originalDat)"

text \<open>
  \<open>FixdatCreator.create\<close>.  The result is the fixdat that is serialised and written, or
  \<open>None\<close> for \<open>undefined\<close> (nothing is written).  \<open>String.prototype.trim\<close> belongs to
  the runtime: it is the parameter \<open>trim\<close>.  The time stamp \<open>date\<close> comes from the clock,
  the URL and the text of the comment from the constants, the options and the paths; the
  directory, the serialisation and the file write are input/output and left out.
\<close>

definition create ::
  "fixdatOptions \<Rightarrow> (rom \<Rightarrow> string) \<Rightarrow> (string \<Rightarrow> string) \<Rightarrow> string \<Rightarrow> dat \<Rightarrow>
     parentsToCandidates \<Rightarrow> dat option" where
  "create options hashCode trim date originalDat parentsToCandidates =
     (if \<not> shouldFixdat options then None
      else
        let missing = gamesWithMissingRoms hashCode originalDat parentsToCandidates in
        if length missing = 0 then None
        else Some \<lparr>
          dat_header = \<lparr>
            header_name = trim (header_name (dat_header originalDat) @ '' fixdat''),
            header_description = trim (header_description (dat_header originalDat) @ '' fixdat''),
            header_version = date,
            header_date = date,
            header_url = homepage options,
            header_comment = commentText options,
            romNamesContainDirectories = False \<rparr>,
          dat_games = missing \<rparr>)"

subsection \<open>The earlier implementation\<close>

text \<open>
  \<open>FixdatCreator.write\<close> collects the hash codes with
  \<open>reduce((map, rom) => { map.set(rom.hashCode(), true); return map; }, new Map())\<close>.
\<close>

definition writtenRomHashCodesMap ::
  "(rom \<Rightarrow> string) \<Rightarrow> parentsToCandidates \<Rightarrow> (string \<rightharpoonup> bool)" where
  "writtenRomHashCodesMap hashCode parentsToCandidates =
     fold (\<lambda>rom m. m(hashCode rom \<mapsto> True))
          (map rwf_rom (concat (map rc_romsWithFiles
             (concat (map (\<lambda>releaseCandidates. releaseCandidates) (map snd parentsToCandidates))))))
          Map.empty"

text \<open>\<open>Map.prototype.has\<close>\<close>

definition mapHas :: "('k \<rightharpoonup> 'v) \<Rightarrow> 'k \<Rightarrow> bool" where
  "mapHas m k = (m k \<noteq> None)"

definition gamesWithMissingRomsOld ::
  "(rom \<Rightarrow> string) \<Rightarrow> dat \<Rightarrow> parentsToCandidates \<Rightarrow> game list" where
  "gamesWithMissingRomsOld hashCode originalDat parentsToCandidates =
     filter (\<lambda>game. \<not> list_all (\<lambda>rom. mapHas (writtenRomHashCodesMap hashCode parentsToCandidates)
                                               (hashCode rom))
                                 (game_roms game))
            (dat_games originalDat)"

text \<open>The games of the fixdat that \<open>create\<close> writes; none when it returns \<open>undefined\<close>.\<close>

definition fixdatGames :: "dat option \<Rightarrow> game list" where
  "fixdatGames result = (case result of None \<Rightarrow> [] | Some fixdat \<Rightarrow> dat_games fixdat)"

section \<open>DAT merger and splitter\<close>

datatype mergeMode = FULLNONMERGED | NONE | SPLIT | MERGED

record mergeOptions =
  getMergeRoms :: "mergeMode option"

text \<open>
  Modelled from the spec: \<open>Game.isClone\<close> and \<open>Game.isParent\<close> are not among the
  sources.  A game whose \<open>parent\<close> is empty is a parent or standalone; a game with a
  clone link is a clone.
\<close>

definition isClone :: "game \<Rightarrow> bool" where
  "isClone game = (game_parent game \<noteq> [])"

definition isParent :: "game \<Rightarrow> bool" where
  "isParent game = (\<not> isClone game)"

text \<open>
  Modelled from the spec: \<open>DAT.hasParentCloneInfo\<close> is not among the sources.  A DAT has
  parent/clone metadata when one of its games carries a clone link.
\<close>

definition hasParentCloneInfo :: "dat \<Rightarrow> bool" where
  "hasParentCloneInfo d = list_ex isClone (dat_games d)"

text \<open>
  Modelled from the spec: \<open>DAT.getParents\<close> is not among the sources.  The classes are
  grouped by clone link: each parent game heads a class and is followed by its clones, in
  the DAT's order, and an orphan clone (one that refers to a missing parent) forms a
  singleton class of its own.  Every game belongs to exactly one class: when several
  parent games have one name, the clones of that name go to the last of them, the game the
  name resolves to, and the others head classes without clones.  A class is the list
  \<open>Parent.getGames()\<close>.
\<close>

fun parentClasses :: "game list \<Rightarrow> game list \<Rightarrow> game list list" where
  "parentClasses games [] = []"
| "parentClasses games (p # ps) =
     (p # (if game_name p \<in> set (map game_name ps) then []
           else filter (\<lambda>c. isClone c \<and> game_parent c = game_name p) games))
     # parentClasses games ps"

text \<open>
  Modelled from the spec: the classes of a DAT are the classes of its parent games, in
  the DAT's order, followed by the singleton classes of its orphan clones.
\<close>

definition getParents :: "dat \<Rightarrow> game list list" where
  "getParents d =
     (let games = dat_games d;
          parentNames = map game_name (filter isParent games)
      in parentClasses games (filter isParent games)
         @ map (\<lambda>c. [c]) (filter (\<lambda>c. isClone c \<and> game_parent c \<notin> set parentNames) games))"

text \<open>
  \<open>romNameFunc\<close> and \<open>romSortFunc\<close> of \<open>mergeParent\<close>.  \<open>localeCompare\<close> with
  \<open>{ numeric: true }\<close> belongs to the runtime's collation library: it is the parameter
  \<open>localeCompareNumeric\<close>.
\<close>

definition romNameFunc :: "rom \<Rightarrow> string" where
  "romNameFunc rom = replaceFirst (CHR ''-'') ''__'' (rom_name rom)"

definition romSortFunc :: "(string \<Rightarrow> string \<Rightarrow> int) \<Rightarrow> rom \<Rightarrow> rom \<Rightarrow> int" where
  "romSortFunc localeCompareNumeric a b = localeCompareNumeric (romNameFunc a) (romNameFunc b)"

text \<open>\<open>diffGameRoms\<close>.  \<open>!parentHashCode\<close> holds for a missing entry and for the empty string.\<close>

definition parentRomNamesToHashCodes :: "(rom \<Rightarrow> string) \<Rightarrow> game \<Rightarrow> (string \<rightharpoonup> string)" where
  "parentRomNamesToHashCodes hashCode parent =
     fold (\<lambda>rom m. m(rom_name rom \<mapsto> hashCode rom)) (game_roms parent) Map.empty"

definition diffGameRoms :: "(rom \<Rightarrow> string) \<Rightarrow> game \<Rightarrow> game \<Rightarrow> rom list" where
  "diffGameRoms hashCode parent child =
     filter (\<lambda>rom.
        let parentName = (case rom_merge rom of None \<Rightarrow> rom_name rom | Some m \<Rightarrow> m) in
        case parentRomNamesToHashCodes hashCode parent parentName of
          None \<Rightarrow> True
        | Some parentHashCode \<Rightarrow>
            if parentHashCode = [] then True
            else if parentHashCode \<noteq> hashCode rom then True
            else False)
       (game_roms child)"

text \<open>The map from game names to games that \<open>merge\<close> builds with \<open>reduce\<close>.\<close>

definition gameNamesToGamesOf :: "game list \<Rightarrow> (string \<rightharpoonup> game)" where
  "gameNamesToGamesOf games = fold (\<lambda>game m. m(game_name game \<mapsto> game)) games Map.empty"

text \<open>The four passes of \<open>mergeParent\<close> over the games of a class, one game at a time.\<close>

definition sanitizeGame :: "(string \<Rightarrow> string \<Rightarrow> int) \<Rightarrow> game \<Rightarrow> game" where
  "sanitizeGame localeCompareNumeric game =
     (let romNames = map rom_name (game_roms game) in
      game\<lparr> game_roms :=
        arraySort (romSortFunc localeCompareNumeric)
          (filterIdx (\<lambda>rom idx. indexOf romNames (rom_name rom) = idx) (game_roms game)) \<rparr>)"

definition addDeviceRoms ::
  "(string \<Rightarrow> string \<Rightarrow> int) \<Rightarrow> (string \<rightharpoonup> game) \<Rightarrow> game \<Rightarrow> game" where
  "addDeviceRoms localeCompareNumeric gameNamesToGames game =
     (if \<not> game_isMachine game then game
      else game\<lparr> game_roms :=
        arraySort (romSortFunc localeCompareNumeric)
          (concat (map game_roms (List.map_filter gameNamesToGames (game_deviceRefs game)))
           @ game_roms game) \<rparr>)"

definition removeBiosRoms ::
  "(rom \<Rightarrow> string) \<Rightarrow> (string \<Rightarrow> string \<Rightarrow> int) \<Rightarrow> (string \<rightharpoonup> game) \<Rightarrow> game \<Rightarrow> game" where
  "removeBiosRoms hashCode localeCompareNumeric gameNamesToGames game =
     (if game_bios game = [] then game
      else case gameNamesToGames (game_bios game) of
        None \<Rightarrow> game
      | Some biosGame \<Rightarrow>
          let biosGame = biosGame\<lparr> game_roms := filter rom_bios (game_roms biosGame) \<rparr> in
          game\<lparr> game_roms :=
            arraySort (romSortFunc localeCompareNumeric) (diffGameRoms hashCode biosGame game) \<rparr>)"

definition removeParentRoms ::
  "(rom \<Rightarrow> string) \<Rightarrow> (string \<Rightarrow> string \<Rightarrow> int) \<Rightarrow> (string \<rightharpoonup> game) \<Rightarrow> game \<Rightarrow> game" where
  "removeParentRoms hashCode localeCompareNumeric gameNamesToGames game =
     (if game_parent game = [] then game
      else case gameNamesToGames (game_parent game) of
        None \<Rightarrow> game
      | Some parentGame \<Rightarrow>
          game\<lparr> game_roms :=
            arraySort (romSortFunc localeCompareNumeric) (diffGameRoms hashCode parentGame game) \<rparr>)"

text \<open>
  Modelled from the spec: the constructor of \<open>Machine\<close> is not among the sources.
  \<open>new Machine({ ...parentGame, rom })\<close> is a Machine with the parent's identity and the
  merged ROM list.  For a class without a parent game the spread adds nothing, and the
  Machine is built from the ROMs alone: no name and no links.
\<close>

definition newMachine :: "game option \<Rightarrow> rom list \<Rightarrow> game" where
  "newMachine parentGame roms =
     (case parentGame of
        Some p \<Rightarrow> p\<lparr> game_roms := roms, game_isMachine := True \<rparr>
      | None \<Rightarrow> \<lparr> game_name = [], game_parent = [], game_bios = [], game_roms = roms,
                   game_isMachine = True, game_deviceRefs = [] \<rparr>)"

text \<open>The ROMs of the clones, each renamed to \<open>clone name\<close>, a backslash, \<open>ROM name\<close>.\<close>

definition cloneRomsOf :: "game list \<Rightarrow> rom list" where
  "cloneRomsOf cloneGames =
     concat (map (\<lambda>game. map (\<lambda>rom. rom\<lparr> rom_name := game_name game @ [CHR 0x5C] @ rom_name rom \<rparr>)
                              (game_roms game)) cloneGames)"

definition mergeParent ::
  "mergeOptions \<Rightarrow> (rom \<Rightarrow> string) \<Rightarrow> (string \<Rightarrow> string \<Rightarrow> int) \<Rightarrow> game list \<Rightarrow>
     (string \<rightharpoonup> game) \<Rightarrow> game list" where
  "mergeParent options hashCode localeCompareNumeric parent gameNamesToGames =
     (let games = map (sanitizeGame localeCompareNumeric) parent;
          games = (if getMergeRoms options = Some FULLNONMERGED
                   then map (addDeviceRoms localeCompareNumeric gameNamesToGames) games
                   else games);
          games = (if getMergeRoms options \<noteq> Some FULLNONMERGED
                   then map (removeBiosRoms hashCode localeCompareNumeric gameNamesToGames) games
                   else games);
          games = (if getMergeRoms options = Some SPLIT \<or> getMergeRoms options = Some MERGED
                   then map (removeParentRoms hashCode localeCompareNumeric gameNamesToGames) games
                   else games);
          parentGame = List.find isParent games;
          cloneGames = filter isClone games
      in if getMergeRoms options \<noteq> Some MERGED
         then (case parentGame of Some p \<Rightarrow> p # cloneGames | None \<Rightarrow> cloneGames)
         else
           let cloneRoms = cloneRomsOf cloneGames;
               allRoms = cloneRoms @ (case parentGame of Some p \<Rightarrow> game_roms p | None \<Rightarrow> []);
               allRomHashCodes = map hashCode allRoms;
               allRomsDeduplicated =
                 filterIdx (\<lambda>rom idx. indexOf allRomHashCodes (hashCode rom) = idx) allRoms
           in [newMachine parentGame allRomsDeduplicated])"

definition merge ::
  "mergeOptions \<Rightarrow> (rom \<Rightarrow> string) \<Rightarrow> (string \<Rightarrow> string \<Rightarrow> int) \<Rightarrow> dat \<Rightarrow> dat" where
  "merge options hashCode localeCompareNumeric d =
     (if getMergeRoms options = None then d
      else if \<not> hasParentCloneInfo d then d
      else
        let gameNamesToGames = gameNamesToGamesOf (dat_games d);
            newGames = concat (map (\<lambda>parent. mergeParent options hashCode localeCompareNumeric
                                                 parent gameNamesToGames) (getParents d))
        in \<lparr> dat_header = (dat_header d)\<lparr> romNamesContainDirectories :=
                                              (getMergeRoms options = Some MERGED) \<rparr>,
             dat_games = newGames \<rparr>)"

text \<open>
  What the passes of \<open>mergeParent\<close> do to one game of a class, before the class is
  assembled: the sanitization, then the passes that the merge mode selects.
\<close>

definition gamePasses ::
  "mergeOptions \<Rightarrow> (rom \<Rightarrow> string) \<Rightarrow> (string \<Rightarrow> string \<Rightarrow> int) \<Rightarrow> (string \<rightharpoonup> game) \<Rightarrow>
     game \<Rightarrow> game" where
  "gamePasses options hashCode localeCompareNumeric gameNamesToGames game =
     (let game = sanitizeGame localeCompareNumeric game;
          game = (if getMergeRoms options = Some FULLNONMERGED
                  then addDeviceRoms localeCompareNumeric gameNamesToGames game else game);
          game = (if getMergeRoms options \<noteq> Some FULLNONMERGED
                  then removeBiosRoms hashCode localeCompareNumeric gameNamesToGames game
                  else game);
          game = (if getMergeRoms options = Some SPLIT \<or> getMergeRoms options = Some MERGED
                  then removeParentRoms hashCode localeCompareNumeric gameNamesToGames game
                  else game)
      in game)"

text \<open>Whether \<open>diffGameRoms\<close> keeps a ROM of the subject game, given the reference game.\<close>

definition keptBy :: "(rom \<Rightarrow> string) \<Rightarrow> game \<Rightarrow> rom \<Rightarrow> bool" where
  "keptBy hashCode parent rom =
     (case parentRomNamesToHashCodes hashCode parent
             (case rom_merge rom of None \<Rightarrow> rom_name rom | Some m \<Rightarrow> m) of
        None \<Rightarrow> True
      | Some parentHashCode \<Rightarrow> parentHashCode = [] \<or> parentHashCode \<noteq> hashCode rom)"

definition romsSorted :: "(string \<Rightarrow> string \<Rightarrow> int) \<Rightarrow> game \<Rightarrow> bool" where
  "romsSorted lc g = sorted_wrt (\<lambda>a b. romSortFunc lc a b \<le> 0) (game_roms g)"

definition romsDistinct :: "game \<Rightarrow> bool" where
  "romsDistinct g = distinct (map rom_name (game_roms g))"

text \<open>
  What mode NONE leaves of a game's ROMs, in the words of the specification: the ROMs of
  first occurrence by name, sorted; and, when the game names a BIOS set that the DAT has,
  those of them that the diff against the BIOS-flagged ROMs of that set keeps, sorted
  again.
\<close>

definition noneModeRoms ::
  "(rom \<Rightarrow> string) \<Rightarrow> (string \<Rightarrow> string \<Rightarrow> int) \<Rightarrow> (string \<rightharpoonup> game) \<Rightarrow> game \<Rightarrow> rom list" where
  "noneModeRoms hashCode lc gameNamesToGames g =
     (let sanitized = arraySort (romSortFunc lc) (firstOccurrences rom_name (game_roms g))
      in if game_bios g = [] then sanitized
         else case gameNamesToGames (game_bios g) of
           None \<Rightarrow> sanitized
         | Some biosGame \<Rightarrow>
             arraySort (romSortFunc lc)
               (filter (keptBy hashCode
                          (biosGame\<lparr> game_roms := filter rom_bios (game_roms biosGame) \<rparr>))
                       sanitized))"

section \<open>File indexer\<close>












section \<open>Path sanitizer\<close>

text \<open>The characters that are not legal in a file name: \<open>" * : < > ? |\<close>.\<close>

definition illegalCharacters :: "char set" where
  "illegalCharacters = {CHR 0x22, CHR 0x2A, CHR 0x3A, CHR 0x3C, CHR 0x3E, CHR 0x3F, CHR 0x7C}"

definition backslash :: char where
  "backslash = CHR 0x5C"

definition isDriveLetter :: "char \<Rightarrow> bool" where
  "isDriveLetter c = (let n = (of_char c :: nat) in (65 \<le> n \<and> n \<le> 90) \<or> (97 \<le> n \<and> n \<le> 122))"

text \<open>A path in a leading drive-letter context: a letter, a colon and a backslash, as \<open>C:\...\<close>.\<close>

fun hasDrivePrefix :: "string \<Rightarrow> bool" where
  "hasDrivePrefix (d # c # s # rest) = (isDriveLetter d \<and> c = CHR 0x3A \<and> s = backslash)"
| "hasDrivePrefix _ = False"

definition legalChar :: "char \<Rightarrow> char" where
  "legalChar c = (if c \<in> illegalCharacters then CHR ''_'' else c)"

definition legalCharWindows :: "char \<Rightarrow> char" where
  "legalCharWindows c = (if c = CHR 0x3A then CHR 0x3B else legalChar c)"

text \<open>
  Modelled from the spec: \<open>fsPoly.makeLegal\<close> is not among the sources, only its tests are.
  Each illegal character is replaced with an underscore, except that with the separator
  \<open>\\<close> the first colon in a leading drive-letter context is preserved and the other
  colons become \<open>;\<close>.
\<close>

definition makeLegal :: "string \<Rightarrow> string \<Rightarrow> string" where
  "makeLegal filePath pathSep =
     (if pathSep = [backslash] then
        (if hasDrivePrefix filePath
         then take 2 filePath @ map legalCharWindows (drop 2 filePath)
         else map legalCharWindows filePath)
      else map legalChar filePath)"

section \<open>Sample data\<close>

definition mkRom :: "string \<Rightarrow> string \<Rightarrow> rom" where
  "mkRom n h = \<lparr> rom_name = n, rom_size = 1, rom_fingerprint = h, rom_merge = None,
                 rom_bios = False \<rparr>"

definition mkGame :: "string \<Rightarrow> string \<Rightarrow> rom list \<Rightarrow> game" where
  "mkGame n p rs = \<lparr> game_name = n, game_parent = p, game_bios = [], game_roms = rs,
                     game_isMachine = False, game_deviceRefs = [] \<rparr>"

definition sampleHeader :: header where
  "sampleHeader = \<lparr> header_name = ''Sample'', header_description = ''Sample set'',
     header_version = ''1'', header_date = ''20230101'', header_url = [],
     header_comment = [], romNamesContainDirectories = False \<rparr>"

definition fixdatSampleOptions :: fixdatOptions where
  "fixdatSampleOptions = \<lparr> shouldFixdat = True, homepage = ''https://igir.io'',
                             commentText = ''fixdat generated by igir'' \<rparr>"

text \<open>
  A trim to run \<open>create\<close> on sample data: it strips the ASCII white space characters, and
  stands in for the runtime's \<open>trim\<close> on the sample names only.
\<close>

definition isAsciiWhiteSpace :: "char \<Rightarrow> bool" where
  "isAsciiWhiteSpace c = (c \<in> {CHR '' '', CHR 0x09, CHR 0x0A, CHR 0x0B, CHR 0x0C, CHR 0x0D})"

definition asciiTrim :: "string \<Rightarrow> string" where
  "asciiTrim s = rev (dropWhile isAsciiWhiteSpace (rev (dropWhile isAsciiWhiteSpace s)))"

definition fixdatSampleDat :: dat where
  "fixdatSampleDat = \<lparr> dat_header = sampleHeader,
     dat_games = [mkGame ''one'' [] [mkRom ''a.rom'' ''H1''],
                  mkGame ''two'' [] [mkRom ''b.rom'' ''H2'', mkRom ''c.rom'' ''H3'']] \<rparr>"

definition fixdatSampleCandidates :: parentsToCandidates where
  "fixdatSampleCandidates =
     [([mkGame ''one'' [] [mkRom ''a.rom'' ''H1'']],
       [\<lparr> rc_romsWithFiles =
           [\<lparr> rwf_rom = mkRom ''a.rom'' ''H1'', rwf_inputFile = ''in/a.rom'',
              rwf_outputFile = ''out/a.rom'' \<rparr>] \<rparr>]),
      ([mkGame ''two'' [] [mkRom ''b.rom'' ''H2'', mkRom ''c.rom'' ''H3'']],
       [\<lparr> rc_romsWithFiles =
           [\<lparr> rwf_rom = mkRom ''b.rom'' ''H2'', rwf_inputFile = ''in/b.rom'',
              rwf_outputFile = ''out/b.rom'' \<rparr>] \<rparr>])]"

text \<open>
  A comparator to run the sorts on sample data: strings compared by their character codes,
  the first difference deciding and a proper prefix going first.  It stands in for the
  runtime's \<open>localeCompare\<close> on the sample names only.
\<close>

fun compareCodes :: "nat list \<Rightarrow> nat list \<Rightarrow> int" where
  "compareCodes [] [] = 0"
| "compareCodes [] (y # ys) = - 1"
| "compareCodes (x # xs) [] = 1"
| "compareCodes (x # xs) (y # ys) =
     (if x < y then - 1 else if y < x then 1 else compareCodes xs ys)"

definition codeUnitCompare :: "string \<Rightarrow> string \<Rightarrow> int" where
  "codeUnitCompare a b = compareCodes (map of_char a) (map of_char b)"

definition splitSampleParent :: game where
  "splitSampleParent = mkGame ''P'' [] [mkRom ''a'' ''H1'', mkRom ''b'' ''H2'']"

definition splitSampleClone :: game where
  "splitSampleClone = mkGame ''C'' ''P'' [mkRom ''a'' ''H1'', mkRom ''b'' ''H3'', mkRom ''c'' ''H4'']"

definition splitSampleDat :: dat where
  "splitSampleDat = \<lparr> dat_header = sampleHeader, dat_games = [splitSampleParent, splitSampleClone] \<rparr>"

definition dwayneInput :: string where
  "dwayneInput = ''Dwayne '' @ [CHR 0x22] @ ''The Rock'' @ [CHR 0x22] @ '' Jonson.rom''"

definition driveInput :: string where
  "driveInput = ''C:'' @ [backslash] @ ''ro:ms'' @ [backslash] @ ''fi:le.rom''"

definition driveExpected :: string where
  "driveExpected = ''C:'' @ [backslash] @ ''ro;ms'' @ [backslash] @ ''fi;le.rom''"





text \<open>A sample hash code over the name, the size and the fingerprint of a ROM.\<close>

definition sampleContentHash :: "rom \<Rightarrow> string" where
  "sampleContentHash r =
     rom_name r @ ''|'' @ replicate (rom_size r) (CHR ''1'') @ ''|'' @ rom_fingerprint r"

definition mergedSampleOptions :: mergeOptions where
  "mergedSampleOptions = \<lparr> getMergeRoms = Some MERGED \<rparr>"

definition mergedSampleClass :: "game list" where
  "mergedSampleClass =
     [mkGame ''P'' [] [mkRom ''a'' ''H1''],
      mkGame ''C1'' ''P'' [mkRom ''x'' ''H2''],
      mkGame ''C2'' ''P'' [mkRom ''x'' ''H2'', mkRom ''y'' ''H3'']]"

definition mergedSampleDat :: dat where
  "mergedSampleDat = \<lparr> dat_header = sampleHeader, dat_games = mergedSampleClass \<rparr>"

definition biosRom :: "string \<Rightarrow> string \<Rightarrow> rom" where
  "biosRom n h = \<lparr> rom_name = n, rom_size = 1, rom_fingerprint = h, rom_merge = None,
                   rom_bios = True \<rparr>"

text \<open>The names and fingerprints of the ROMs of a game, in order.\<close>

definition romKeys :: "game \<Rightarrow> (string \<times> string) list" where
  "romKeys g = map (\<lambda>r. (rom_name r, rom_fingerprint r)) (game_roms g)"

definition noneSampleOptions :: mergeOptions where
  "noneSampleOptions = \<lparr> getMergeRoms = Some NONE \<rparr>"

text \<open>
  A BIOS set, a game that uses it and lists the BIOS ROM among its own, a clone of that
  game, and a game that lists one name twice with different contents.
\<close>

definition noneSampleDat :: dat where
  "noneSampleDat = \<lparr> dat_header = sampleHeader, dat_games =
     [mkGame ''bios'' [] [biosRom ''b.rom'' ''HB''],
      (mkGame ''G'' [] [mkRom ''b.rom'' ''HB'', mkRom ''g.rom'' ''HG''])\<lparr> game_bios := ''bios'' \<rparr>,
      mkGame ''C'' ''G'' [mkRom ''c.rom'' ''HC''],
      mkGame ''D'' [] [mkRom ''d.rom'' ''H1'', mkRom ''d.rom'' ''H2'']] \<rparr>"

text \<open>A game that lists one ROM twice, name and contents alike.\<close>

definition repeatedRomGame :: game where
  "repeatedRomGame = mkGame ''R'' [] [mkRom ''r.rom'' ''HR'', mkRom ''r.rom'' ''HR'']"

definition machine :: "string \<Rightarrow> string \<Rightarrow> string list \<Rightarrow> rom list \<Rightarrow> game" where
  "machine n p refs rs = \<lparr> game_name = n, game_parent = p, game_bios = [], game_roms = rs,
                           game_isMachine = True, game_deviceRefs = refs \<rparr>"

definition fullSampleOptions :: mergeOptions where
  "fullSampleOptions = \<lparr> getMergeRoms = Some FULLNONMERGED \<rparr>"

text \<open>A machine that uses a device that itself uses a device, and a clone of the machine.\<close>

definition fullSampleDat :: dat where
  "fullSampleDat = \<lparr> dat_header = sampleHeader, dat_games =
     [machine ''E'' [] [] [mkRom ''e1'' ''He''],
      machine ''D'' [] [''E''] [mkRom ''d1'' ''Hd''],
      machine ''M'' [] [''D''] [mkRom ''m1'' ''Hm''],
      machine ''C'' ''M'' [] [mkRom ''c1'' ''Hc'']] \<rparr>"

definition splitSampleOptions :: mergeOptions where
  "splitSampleOptions = \<lparr> getMergeRoms = Some SPLIT \<rparr>"

text \<open>A parent that lists one ROM name twice with different contents, and a clone.\<close>

definition splitRepeatDat :: dat where
  "splitRepeatDat = \<lparr> dat_header = sampleHeader, dat_games =
     [mkGame ''P'' [] [mkRom ''x'' ''H1'', mkRom ''x'' ''H2''],
      mkGame ''C'' ''P'' [mkRom ''x'' ''H1'']] \<rparr>"

section \<open>Properties of the fixdat generator\<close>

lemma fold_set_dom:
  "dom (fold (\<lambda>r m. m(f r \<mapsto> True)) rs m0) = dom m0 \<union> f ` set rs"
  by (induction rs arbitrary: m0) auto

lemma mapHas_written:
  "mapHas (writtenRomHashCodesMap hashCode p2c) h \<longleftrightarrow> h \<in> writtenRomHashCodes hashCode p2c"
proof -
  have "mapHas (writtenRomHashCodesMap hashCode p2c) h
          \<longleftrightarrow> h \<in> dom (writtenRomHashCodesMap hashCode p2c)"
    by (auto simp: mapHas_def)
  also have "\<dots> \<longleftrightarrow> h \<in> hashCode ` set (candidateRoms p2c)"
    unfolding writtenRomHashCodesMap_def fold_set_dom
    by (simp add: candidateRoms_def)
  finally show ?thesis
    by (simp add: writtenRomHashCodes_def)
qed

lemma written_iff:
  "h \<in> writtenRomHashCodes hashCode p2c \<longleftrightarrow>
     (\<exists>entry \<in> set p2c. \<exists>rc \<in> set (snd entry). \<exists>rwf \<in> set (rc_romsWithFiles rc).
        hashCode (rwf_rom rwf) = h)"
  by (auto simp: writtenRomHashCodes_def candidateRoms_def)

lemma missing_filter:
  "gamesWithMissingRoms hashCode d p2c =
     filter (\<lambda>game. \<exists>rom \<in> set (game_roms game). hashCode rom \<notin> writtenRomHashCodes hashCode p2c)
            (dat_games d)"
  by (simp add: gamesWithMissingRoms_def list_all_iff)

lemma create_games:
  "shouldFixdat options \<Longrightarrow>
     fixdatGames (create options hashCode trim date d p2c) = gamesWithMissingRoms hashCode d p2c"
  by (simp add: create_def fixdatGames_def Let_def)

lemma create_None:
  "shouldFixdat options \<Longrightarrow>
     create options hashCode trim date d p2c = None \<longleftrightarrow> gamesWithMissingRoms hashCode d p2c = []"
  by (simp add: create_def Let_def)

text \<open>
  C1.  With the fixdat option on, the games of the fixdat are exactly the games of the
  original DAT, in their order, that have a ROM whose hash code is not in the written set;
  the written set is the set of hash codes of the ROMs bound in any release candidate.  So
  a game of the fixdat has a ROM outside the written set, a game of the DAT that is not in
  the fixdat has all of its ROMs in it, and \<open>create\<close> returns \<open>undefined\<close> exactly when no
  game is missing a ROM.
\<close>

theorem fixdat_selects_incomplete_games:
  assumes "shouldFixdat options"
  shows "(\<forall>h. h \<in> writtenRomHashCodes hashCode p2c \<longleftrightarrow>
            (\<exists>entry \<in> set p2c. \<exists>rc \<in> set (snd entry). \<exists>rwf \<in> set (rc_romsWithFiles rc).
               hashCode (rwf_rom rwf) = h))
       \<and> fixdatGames (create options hashCode trim date d p2c) =
            filter (\<lambda>game. \<exists>rom \<in> set (game_roms game).
                              hashCode rom \<notin> writtenRomHashCodes hashCode p2c) (dat_games d)
       \<and> (\<forall>game \<in> set (fixdatGames (create options hashCode trim date d p2c)).
            \<exists>rom \<in> set (game_roms game). hashCode rom \<notin> writtenRomHashCodes hashCode p2c)
       \<and> (\<forall>game \<in> set (dat_games d).
            game \<notin> set (fixdatGames (create options hashCode trim date d p2c)) \<longrightarrow>
            (\<forall>rom \<in> set (game_roms game). hashCode rom \<in> writtenRomHashCodes hashCode p2c))
       \<and> (create options hashCode trim date d p2c = None \<longleftrightarrow>
            (\<forall>game \<in> set (dat_games d). \<forall>rom \<in> set (game_roms game).
               hashCode rom \<in> writtenRomHashCodes hashCode p2c))"
proof -
  let ?W = "writtenRomHashCodes hashCode p2c"
  let ?out = "fixdatGames (create options hashCode trim date d p2c)"
  have out: "?out = filter (\<lambda>game. \<exists>rom \<in> set (game_roms game). hashCode rom \<notin> ?W) (dat_games d)"
    using assms by (simp add: create_games missing_filter)
  have none: "create options hashCode trim date d p2c = None \<longleftrightarrow>
      (\<forall>game \<in> set (dat_games d). \<forall>rom \<in> set (game_roms game). hashCode rom \<in> ?W)"
    using assms by (auto simp: create_None missing_filter filter_empty_conv)
  have sound: "\<forall>game \<in> set ?out. \<exists>rom \<in> set (game_roms game). hashCode rom \<notin> ?W"
    unfolding out by simp
  have complete: "\<forall>game \<in> set (dat_games d). game \<notin> set ?out \<longrightarrow>
      (\<forall>rom \<in> set (game_roms game). hashCode rom \<in> ?W)"
    unfolding out by simp
  from written_iff out sound complete none show ?thesis
    by blast
qed

lemma fixdatSample_written:
  "writtenRomHashCodes rom_fingerprint fixdatSampleCandidates = {''H1'', ''H2''}"
  by (auto simp: writtenRomHashCodes_def candidateRoms_def fixdatSampleCandidates_def mkRom_def)

theorem fixdat_selects_incomplete_games_witness:
  "shouldFixdat fixdatSampleOptions
   \<and> map game_name (fixdatGames (create fixdatSampleOptions rom_fingerprint asciiTrim ''20230101-120000''
                                    fixdatSampleDat fixdatSampleCandidates)) = [''two'']
   \<and> create fixdatSampleOptions rom_fingerprint asciiTrim ''20230101-120000''
        fixdatSampleDat fixdatSampleCandidates \<noteq> None"
  using fixdat_selects_incomplete_games [of fixdatSampleOptions rom_fingerprint
          fixdatSampleCandidates asciiTrim "''20230101-120000''" fixdatSampleDat]
  by (simp add: fixdatSample_written fixdatSampleOptions_def fixdatSampleDat_def mkGame_def
        mkRom_def)

text \<open>
  C10.  The earlier implementation, which records the written hash codes as the keys of a
  map to \<open>true\<close>, selects the same games in the same order as the one that keeps a set.
\<close>

theorem fixdat_implementations_agree:
  "gamesWithMissingRomsOld hashCode originalDat parentsToCandidates =
     gamesWithMissingRoms hashCode originalDat parentsToCandidates"
  by (simp add: gamesWithMissingRomsOld_def gamesWithMissingRoms_def mapHas_written)

section \<open>Properties of the ROM diff\<close>

lemma fold_upd_lookup:
  "fold (\<lambda>r m. m(k r \<mapsto> v r)) rs m0 x =
     (case filter (\<lambda>r. k r = x) rs of [] \<Rightarrow> m0 x | p # ps \<Rightarrow> Some (v (last (p # ps))))"
  by (induction rs arbitrary: m0) (auto split: list.splits)

lemma parentRomNamesToHashCodes_entry:
  "parentRomNamesToHashCodes hashCode R e =
     (case filter (\<lambda>p. rom_name p = e) (game_roms R) of
        [] \<Rightarrow> None
      | p # ps \<Rightarrow> Some (hashCode (last (p # ps))))"
  unfolding parentRomNamesToHashCodes_def by (simp add: fold_upd_lookup)

lemma parentRomNamesToHashCodes_nonempty:
  assumes "\<forall>p \<in> set (game_roms R). hashCode p \<noteq> []"
    and "parentRomNamesToHashCodes hashCode R e = Some h"
  shows "h \<noteq> []"
proof -
  obtain p ps where f: "filter (\<lambda>p. rom_name p = e) (game_roms R) = p # ps" and h: "h = hashCode (last (p # ps))"
    using assms(2) by (auto simp: parentRomNamesToHashCodes_entry split: list.splits)
  have "last (p # ps) \<in> set (filter (\<lambda>p. rom_name p = e) (game_roms R))"
    unfolding f by (rule last_in_set) simp
  then have "last (p # ps) \<in> set (game_roms R)" by simp
  with assms(1) h show ?thesis by auto
qed

lemma splitSample_diff:
  "diffGameRoms rom_fingerprint splitSampleParent splitSampleClone
     = [mkRom ''b'' ''H3'', mkRom ''c'' ''H4'']"
  by code_simp

lemma splitSample_merge:
  "map game_roms (dat_games (merge \<lparr> getMergeRoms = Some SPLIT \<rparr> rom_fingerprint codeUnitCompare
                               splitSampleDat))
     = [[mkRom ''a'' ''H1'', mkRom ''b'' ''H2''], [mkRom ''b'' ''H3'', mkRom ''c'' ''H4'']]"
  by code_simp

text \<open>
  C2.  The ROM diff keeps exactly the ROMs of the subject game whose effective name
  (\<open>merge\<close>, or the name when there is no \<open>merge\<close>) has no entry in the map from the
  reference game's ROM names to hash codes, or whose hash code differs from that entry; the
  entry of a name is the hash code of the last ROM of the reference game with that name.
  The reference game's hash codes are taken to be non-empty strings, since the code reads an
  empty entry as a missing one.  On the sample, parent \<open>[(a,H1),(b,H2)]\<close> and clone
  \<open>[(a,H1),(b,H3),(c,H4)]\<close>, the diff and the whole transform in mode SPLIT leave the clone
  with \<open>[(b,H3),(c,H4)]\<close>.
\<close>

theorem diffGameRoms_keeps_changed_roms:
  assumes "\<forall>p \<in> set (game_roms R). hashCode p \<noteq> []"
  shows "diffGameRoms hashCode R S =
           filter (\<lambda>rom. case parentRomNamesToHashCodes hashCode R
                                 (case rom_merge rom of None \<Rightarrow> rom_name rom | Some m \<Rightarrow> m) of
                            None \<Rightarrow> True
                          | Some h \<Rightarrow> h \<noteq> hashCode rom)
                  (game_roms S)
       \<and> (\<forall>e. parentRomNamesToHashCodes hashCode R e =
                (case filter (\<lambda>p. rom_name p = e) (game_roms R) of
                   [] \<Rightarrow> None
                 | p # ps \<Rightarrow> Some (hashCode (last (p # ps)))))
       \<and> diffGameRoms rom_fingerprint splitSampleParent splitSampleClone
            = [mkRom ''b'' ''H3'', mkRom ''c'' ''H4'']
       \<and> map game_roms (dat_games (merge \<lparr> getMergeRoms = Some SPLIT \<rparr> rom_fingerprint
                                      codeUnitCompare splitSampleDat))
            = [[mkRom ''a'' ''H1'', mkRom ''b'' ''H2''], [mkRom ''b'' ''H3'', mkRom ''c'' ''H4'']]"
proof -
  have "diffGameRoms hashCode R S =
           filter (\<lambda>rom. case parentRomNamesToHashCodes hashCode R
                                 (case rom_merge rom of None \<Rightarrow> rom_name rom | Some m \<Rightarrow> m) of
                            None \<Rightarrow> True
                          | Some h \<Rightarrow> h \<noteq> hashCode rom)
                  (game_roms S)"
    unfolding diffGameRoms_def Let_def
    by (rule filter_cong)
       (auto split: option.splits dest: parentRomNamesToHashCodes_nonempty [OF assms])
  then show ?thesis
    using parentRomNamesToHashCodes_entry splitSample_diff splitSample_merge by blast
qed

theorem diffGameRoms_keeps_changed_roms_witness:
  "list_all (\<lambda>p. rom_fingerprint p \<noteq> []) (game_roms splitSampleParent)
   \<and> parentRomNamesToHashCodes rom_fingerprint splitSampleParent ''b'' = Some ''H2''
   \<and> parentRomNamesToHashCodes rom_fingerprint splitSampleParent ''c'' = None
   \<and> diffGameRoms rom_fingerprint splitSampleParent splitSampleClone
        = filter (\<lambda>rom. case parentRomNamesToHashCodes rom_fingerprint splitSampleParent
                                 (case rom_merge rom of None \<Rightarrow> rom_name rom | Some m \<Rightarrow> m) of
                            None \<Rightarrow> True
                          | Some h \<Rightarrow> h \<noteq> rom_fingerprint rom)
                 (game_roms splitSampleClone)"
proof -
  have h: "\<forall>p \<in> set (game_roms splitSampleParent). rom_fingerprint p \<noteq> []"
    by (simp add: splitSampleParent_def mkGame_def mkRom_def)
  note t = diffGameRoms_keeps_changed_roms [OF h, of splitSampleClone]
  from t have "\<forall>e. parentRomNamesToHashCodes rom_fingerprint splitSampleParent e =
                (case filter (\<lambda>p. rom_name p = e) (game_roms splitSampleParent) of
                   [] \<Rightarrow> None
                 | p # ps \<Rightarrow> Some (rom_fingerprint (last (p # ps))))"
    by blast
  then have e: "parentRomNamesToHashCodes rom_fingerprint splitSampleParent ''b'' = Some ''H2''"
    "parentRomNamesToHashCodes rom_fingerprint splitSampleParent ''c'' = None"
    by (simp_all add: splitSampleParent_def mkGame_def mkRom_def)
  from t have d: "diffGameRoms rom_fingerprint splitSampleParent splitSampleClone
        = filter (\<lambda>rom. case parentRomNamesToHashCodes rom_fingerprint splitSampleParent
                                 (case rom_merge rom of None \<Rightarrow> rom_name rom | Some m \<Rightarrow> m) of
                            None \<Rightarrow> True
                          | Some h \<Rightarrow> h \<noteq> rom_fingerprint rom)
                 (game_roms splitSampleClone)"
    by blast
  from h have "list_all (\<lambda>p. rom_fingerprint p \<noteq> []) (game_roms splitSampleParent)"
    by (simp add: list_all_iff)
  with e d show ?thesis by blast
qed

section \<open>Properties of the path sanitizer\<close>

lemma hasDrivePrefix_length: "hasDrivePrefix p \<Longrightarrow> 3 \<le> length p"
  by (induction p rule: hasDrivePrefix.induct) simp_all

lemma makeLegal_length: "length (makeLegal p sep) = length p"
  by (auto simp: makeLegal_def dest: hasDrivePrefix_length)

lemma hasDrivePrefix_colon: "hasDrivePrefix p \<Longrightarrow> p ! 1 = CHR 0x3A \<and> p ! 0 \<notin> illegalCharacters"
  by (induction p rule: hasDrivePrefix.induct)
     (auto simp: isDriveLetter_def illegalCharacters_def Let_def)

lemma makeLegal_nth_unix:
  "sep \<noteq> [backslash] \<Longrightarrow> i < length p \<Longrightarrow> makeLegal p sep ! i = legalChar (p ! i)"
  by (simp add: makeLegal_def)

lemma makeLegal_nth_windows:
  assumes "i < length p"
  shows "makeLegal p [backslash] ! i =
           (if hasDrivePrefix p \<and> i < 2 then p ! i else legalCharWindows (p ! i))"
proof (cases "hasDrivePrefix p")
  case True
  then have len: "3 \<le> length p" by (rule hasDrivePrefix_length)
  show ?thesis
  proof (cases "i < 2")
    case True
    with \<open>hasDrivePrefix p\<close> len show ?thesis
      by (simp add: makeLegal_def nth_append)
  next
    case False
    then have "Suc (Suc (i - 2)) = i" by arith
    with False \<open>hasDrivePrefix p\<close> len assms show ?thesis
      by (simp add: makeLegal_def nth_append min_def)
  qed
next
  case False
  with assms show ?thesis by (simp add: makeLegal_def)
qed

lemma makeLegal_tests_unix:
  "makeLegal ''file.rom'' ''/'' = ''file.rom''
   \<and> makeLegal ''roms/file.rom'' ''/'' = ''roms/file.rom''
   \<and> makeLegal ''/roms/file.rom'' ''/'' = ''/roms/file.rom''
   \<and> makeLegal dwayneInput ''/'' = ''Dwayne _The Rock_ Jonson.rom''"
  by code_simp

lemma makeLegal_tests_windows:
  "makeLegal ''file.rom'' [backslash] = ''file.rom''
   \<and> makeLegal (''roms'' @ [backslash] @ ''file.rom'') [backslash] = ''roms'' @ [backslash] @ ''file.rom''
   \<and> makeLegal (''C:'' @ [backslash] @ ''roms'' @ [backslash] @ ''file.rom'') [backslash]
        = ''C:'' @ [backslash] @ ''roms'' @ [backslash] @ ''file.rom''
   \<and> makeLegal driveInput [backslash] = driveExpected
   \<and> makeLegal dwayneInput [backslash] = ''Dwayne _The Rock_ Jonson.rom''"
  by code_simp

text \<open>
  C9.  The sanitizer keeps the length of the path and every legal character; it replaces
  each illegal character other than the colon with an underscore; a colon becomes an
  underscore when the separator is not the backslash, and with the backslash separator it
  is kept when it is the colon of a leading drive letter and becomes a semicolon
  otherwise.  The two paths of the scenarios are rewritten as stated; the lemmas before
  check the other expectations of the test file.
\<close>

theorem makeLegal_replaces_illegal_characters:
  "length (makeLegal p sep) = length p
   \<and> (\<forall>i < length p. p ! i \<notin> illegalCharacters \<longrightarrow> makeLegal p sep ! i = p ! i)
   \<and> (\<forall>i < length p. p ! i \<in> illegalCharacters \<and> p ! i \<noteq> CHR 0x3A \<longrightarrow>
         makeLegal p sep ! i = CHR ''_'')
   \<and> (\<forall>i < length p. p ! i = CHR 0x3A \<and> sep \<noteq> [backslash] \<longrightarrow> makeLegal p sep ! i = CHR ''_'')
   \<and> (\<forall>i < length p. p ! i = CHR 0x3A \<and> sep = [backslash] \<longrightarrow>
         makeLegal p sep ! i = (if hasDrivePrefix p \<and> i = 1 then CHR 0x3A else CHR 0x3B))
   \<and> makeLegal dwayneInput ''/'' = ''Dwayne _The Rock_ Jonson.rom''
   \<and> makeLegal driveInput [backslash] = driveExpected"
proof -
  have keep: "makeLegal p sep ! i = p ! i" if "i < length p" "p ! i \<notin> illegalCharacters" for i
  proof (cases "sep = [backslash]")
    case True
    from that have "p ! i \<noteq> CHR 0x3A" by (auto simp: illegalCharacters_def)
    with that True show ?thesis
      by (simp add: makeLegal_nth_windows legalCharWindows_def legalChar_def)
  next
    case False
    with that show ?thesis by (simp add: makeLegal_nth_unix legalChar_def)
  qed
  have other: "makeLegal p sep ! i = CHR ''_''"
    if "i < length p" "p ! i \<in> illegalCharacters" "p ! i \<noteq> CHR 0x3A" for i
  proof (cases "sep = [backslash]")
    case True
    have "\<not> (hasDrivePrefix p \<and> i < 2)"
    proof
      assume a: "hasDrivePrefix p \<and> i < 2"
      then have "i = 0 \<or> i = 1" by auto
      with a hasDrivePrefix_colon [of p] that show False by auto
    qed
    with that True show ?thesis
      by (auto simp: makeLegal_nth_windows legalCharWindows_def legalChar_def)
  next
    case False
    with that show ?thesis by (simp add: makeLegal_nth_unix legalChar_def)
  qed
  have colon_unix: "makeLegal p sep ! i = CHR ''_''"
    if "i < length p" "p ! i = CHR 0x3A" "sep \<noteq> [backslash]" for i
    using that by (simp add: makeLegal_nth_unix legalChar_def illegalCharacters_def)
  have colon_win: "makeLegal p sep ! i = (if hasDrivePrefix p \<and> i = 1 then CHR 0x3A else CHR 0x3B)"
    if "i < length p" "p ! i = CHR 0x3A" "sep = [backslash]" for i
  proof (cases "hasDrivePrefix p \<and> i < 2")
    case True
    then have "i = 0 \<or> i = 1" by auto
    moreover have "i \<noteq> 0"
    proof
      assume "i = 0"
      with that(2) have "p ! 0 \<in> illegalCharacters" by (simp add: illegalCharacters_def)
      with True hasDrivePrefix_colon [of p] show False by simp
    qed
    ultimately have "i = 1" by simp
    with True that show ?thesis by (simp add: makeLegal_nth_windows)
  next
    case False
    then have "\<not> (hasDrivePrefix p \<and> i = 1)" by auto
    with False that show ?thesis
      by (auto simp: makeLegal_nth_windows legalCharWindows_def)
  qed
  from makeLegal_length keep other colon_unix colon_win makeLegal_tests_unix makeLegal_tests_windows
  show ?thesis by blast
qed

theorem makeLegal_replaces_illegal_characters_witness:
  "length driveInput = 18
   \<and> driveInput ! 1 = CHR 0x3A \<and> makeLegal driveInput [backslash] ! 1 = CHR 0x3A
   \<and> driveInput ! 5 = CHR 0x3A \<and> makeLegal driveInput [backslash] ! 5 = CHR 0x3B
   \<and> makeLegal driveInput ''/'' ! 5 = CHR ''_''
   \<and> driveInput ! 0 = CHR ''C'' \<and> makeLegal driveInput [backslash] ! 0 = CHR ''C''
   \<and> dwayneInput ! 7 = CHR 0x22 \<and> makeLegal dwayneInput ''/'' ! 7 = CHR ''_''"
proof -
  have facts: "length driveInput = 18" "driveInput ! 1 = CHR 0x3A" "driveInput ! 5 = CHR 0x3A"
    "driveInput ! 0 = CHR ''C''" "dwayneInput ! 7 = CHR 0x22" "length dwayneInput = 28"
    "hasDrivePrefix driveInput" "''/'' \<noteq> [backslash]"
    "CHR ''C'' \<notin> illegalCharacters" "CHR 0x22 \<in> illegalCharacters"
    by (simp_all add: driveInput_def dwayneInput_def backslash_def isDriveLetter_def
          illegalCharacters_def)
  from makeLegal_replaces_illegal_characters [of driveInput "[backslash]"]
    makeLegal_replaces_illegal_characters [of driveInput "''/''"]
    makeLegal_replaces_illegal_characters [of dwayneInput "''/''"]
  show ?thesis using facts by auto
qed

section \<open>Properties of the merger\<close>

text \<open>
  C7.  Without a merge mode, or for a DAT without parent/clone information, \<open>merge\<close>
  returns the DAT it was given.
\<close>

theorem merge_without_mode_or_clones_is_identity:
  "getMergeRoms options = None \<or> \<not> hasParentCloneInfo d \<Longrightarrow>
     merge options hashCode localeCompareNumeric d = d"
  by (auto simp: merge_def)

lemma fixdatSampleDat_no_clones: "\<not> hasParentCloneInfo fixdatSampleDat"
  by (simp add: hasParentCloneInfo_def fixdatSampleDat_def mkGame_def isClone_def)

lemma splitSampleDat_clones: "hasParentCloneInfo splitSampleDat"
  by (simp add: hasParentCloneInfo_def splitSampleDat_def splitSampleParent_def
        splitSampleClone_def mkGame_def isClone_def)

theorem merge_without_mode_or_clones_is_identity_witness:
  "getMergeRoms \<lparr> getMergeRoms = None \<rparr> = None
   \<and> hasParentCloneInfo splitSampleDat
   \<and> merge \<lparr> getMergeRoms = None \<rparr> rom_fingerprint codeUnitCompare splitSampleDat = splitSampleDat
   \<and> \<not> hasParentCloneInfo fixdatSampleDat
   \<and> merge \<lparr> getMergeRoms = Some MERGED \<rparr> rom_fingerprint codeUnitCompare fixdatSampleDat
       = fixdatSampleDat"
  using merge_without_mode_or_clones_is_identity
          [of "\<lparr> getMergeRoms = None \<rparr>" splitSampleDat rom_fingerprint codeUnitCompare]
        merge_without_mode_or_clones_is_identity
          [of "\<lparr> getMergeRoms = Some MERGED \<rparr>" fixdatSampleDat rom_fingerprint codeUnitCompare]
        fixdatSampleDat_no_clones splitSampleDat_clones
  by simp

lemma replaceFirst_char:
  "replaceFirst c r s =
     (if c \<in> set s
      then takeWhile (\<lambda>x. x \<noteq> c) s @ r @ tl (dropWhile (\<lambda>x. x \<noteq> c) s)
      else s)"
  by (induction s) auto

text \<open>
  C5.  The key that the ROMs are sorted by replaces the first hyphen of the name only:
  \<open>String.prototype.replace\<close> with a string pattern stops after one replacement.  A name
  with two hyphens keeps the second one.
\<close>

theorem romNameFunc_replaces_first_hyphen_only:
  "romNameFunc (mkRom ''a-b-c'' ''H1'') = ''a__b-c''
   \<and> romNameFunc (mkRom ''a-b-c'' ''H1'') \<noteq> ''a__b__c''"
  by (simp add: romNameFunc_def mkRom_def)

section \<open>Properties of the stable sort\<close>

lemma mset_insertBy: "mset (insertBy c x xs) = add_mset x (mset xs)"
  by (induction xs) auto

lemma mset_arraySort: "mset (arraySort c xs) = mset xs"
  by (induction xs) (auto simp: arraySort_def mset_insertBy)

lemma set_arraySort: "set (arraySort c xs) = set xs"
  by (metis mset_arraySort set_mset_mset)

lemma length_arraySort: "length (arraySort c xs) = length xs"
  by (metis mset_arraySort size_mset)

lemma arraySort_Cons: "arraySort c (x # xs) = insertBy c x (arraySort c xs)"
  by (simp add: arraySort_def)

lemma arraySort_Nil: "arraySort c [] = []"
  by (simp add: arraySort_def)

lemma set_insertBy: "set (insertBy c x xs) = insert x (set xs)"
  by (induction xs) auto

lemma sorted_insertBy:
  assumes "totalPreorder c" "sorted_wrt (\<lambda>a b. c a b \<le> 0) xs"
  shows "sorted_wrt (\<lambda>a b. c a b \<le> 0) (insertBy c x xs)"
  using assms(2)
proof (induction xs)
  case Nil
  then show ?case by simp
next
  case (Cons y ys)
  show ?case
  proof (cases "c x y \<le> 0")
    case True
    have "\<forall>z \<in> set ys. c x z \<le> 0"
    proof
      fix z assume "z \<in> set ys"
      with Cons.prems have "c y z \<le> 0" by simp
      with True assms(1) show "c x z \<le> 0" unfolding totalPreorder_def by blast
    qed
    with True Cons.prems show ?thesis by simp
  next
    case False
    with assms(1) have "c y x \<le> 0" unfolding totalPreorder_def by blast
    with False Cons show ?thesis by (auto simp: set_insertBy)
  qed
qed

lemma sorted_arraySort:
  "totalPreorder c \<Longrightarrow> sorted_wrt (\<lambda>a b. c a b \<le> 0) (arraySort c xs)"
  by (induction xs) (simp_all add: arraySort_Nil arraySort_Cons sorted_insertBy)

lemma insertBy_sorted_front:
  "sorted_wrt (\<lambda>a b. c a b \<le> 0) (x # xs) \<Longrightarrow> insertBy c x xs = x # xs"
  by (cases xs) simp_all

lemma arraySort_sorted_id:
  "sorted_wrt (\<lambda>a b. c a b \<le> 0) xs \<Longrightarrow> arraySort c xs = xs"
proof (induction xs)
  case Nil
  then show ?case by (simp add: arraySort_Nil)
next
  case (Cons x xs)
  then have "arraySort c xs = xs" by simp
  with Cons.prems show ?case
    by (simp add: arraySort_Cons insertBy_sorted_front)
qed

section \<open>Properties of the file indexer\<close>













lemma compareCodes_total: "compareCodes a b \<le> 0 \<or> compareCodes b a \<le> 0"
  by (induction a b rule: compareCodes.induct) simp_all

lemma compareCodes_trans:
  "compareCodes a b \<le> 0 \<Longrightarrow> compareCodes b d \<le> 0 \<Longrightarrow> compareCodes a d \<le> 0"
proof (induction a b arbitrary: d rule: compareCodes.induct)
  case 1
  then show ?case by simp
next
  case (2 y ys)
  then show ?case by (cases d) simp_all
next
  case (3 x xs)
  then show ?case by simp
next
  case (4 x xs y ys)
  show ?case
  proof (cases d)
    case Nil
    with 4 show ?thesis by simp
  next
    case (Cons z zs)
    from "4.prems"(1) have xy: "x \<le> y" by (simp split: if_splits)
    from "4.prems"(2) Cons have yz: "y \<le> z" by (simp split: if_splits)
    show ?thesis
    proof (cases "x < z")
      case True
      with Cons show ?thesis by simp
    next
      case False
      with xy yz have eq: "x = y" "y = z" by simp_all
      with "4.prems" Cons have "compareCodes xs ys \<le> 0" "compareCodes ys zs \<le> 0"
        by simp_all
      with "4.IH" [of zs] eq have "compareCodes xs zs \<le> 0" by simp
      with eq Cons show ?thesis by simp
    qed
  qed
qed

lemma codeUnitCompare_totalPreorder: "totalPreorder codeUnitCompare"
  unfolding totalPreorder_def codeUnitCompare_def
  using compareCodes_total compareCodes_trans by blast



section \<open>Dropping duplicates\<close>

lemma indexOf_absent: "k \<notin> set ks \<Longrightarrow> indexOf ks k = - 1"
  by (induction ks) (auto simp: Let_def)

lemma indexOf_present: "k \<in> set ks \<Longrightarrow> 0 \<le> indexOf ks k \<and> indexOf ks k < int (length ks)"
  by (induction ks) (auto simp: Let_def)

lemma indexOf_append:
  "indexOf (as @ bs) k =
     (if k \<in> set as then indexOf as k
      else if k \<in> set bs then int (length as) + indexOf bs k
      else - 1)"
proof (induction as)
  case Nil
  then show ?case by (simp add: indexOf_absent)
next
  case (Cons a as)
  then show ?case
    using indexOf_present [of k as] indexOf_present [of k bs]
    by (auto simp: Let_def)
qed

lemma indexOf_at_prefix_end:
  "indexOf (pre @ k # post) k = int (length pre) \<longleftrightarrow> k \<notin> set pre"
  using indexOf_present [of k pre] by (auto simp: indexOf_append)

lemma filterIdx_offset:
  "map fst (filter (\<lambda>(x, idx). indexOf (map key (pre @ xs)) (key x) = idx)
                   (zip xs (map int [length pre..<length pre + length xs])))
     = keepFirst key (set (map key pre)) xs"
proof (induction xs arbitrary: pre)
  case Nil
  then show ?case by simp
next
  case (Cons x xs)
  have upt: "[length pre..<length pre + length (x # xs)]
               = length pre # [length (pre @ [x])..<length (pre @ [x]) + length xs]"
  proof -
    have "[length pre..<length pre + Suc (length xs)]
            = length pre # [Suc (length pre)..<length pre + Suc (length xs)]"
      by (rule upt_conv_Cons) simp
    then show ?thesis by simp
  qed
  have ih: "map fst (filter (\<lambda>(y, idx). indexOf (map key (pre @ x # xs)) (key y) = idx)
                   (zip xs (map int [length (pre @ [x])..<length (pre @ [x]) + length xs])))
     = keepFirst key (insert (key x) (set (map key pre))) xs"
    using Cons.IH [of "pre @ [x]"] by simp
  have hd: "indexOf (map key (pre @ x # xs)) (key x) = int (length pre) \<longleftrightarrow> key x \<notin> set (map key pre)"
    using indexOf_at_prefix_end [of "map key pre" "key x" "map key xs"] by simp
  show ?case
    unfolding upt using ih hd by simp
qed

lemma filterIdx_indexOf:
  "filterIdx (\<lambda>x idx. indexOf (map key xs) (key x) = idx) xs = firstOccurrences key xs"
  using filterIdx_offset [of key "[]" xs]
  by (simp add: filterIdx_def firstOccurrences_def)

lemma set_keepFirst: "set (keepFirst key seen xs) \<subseteq> set xs"
  by (induction xs arbitrary: seen) auto

lemma keys_keepFirst: "key ` set (keepFirst key seen xs) = key ` set xs - seen"
  by (induction xs arbitrary: seen) auto

lemma distinct_keepFirst: "distinct (map key (keepFirst key seen xs))"
proof (induction xs arbitrary: seen)
  case Nil
  then show ?case by simp
next
  case (Cons x xs)
  have "key x \<notin> key ` set (keepFirst key (insert (key x) seen) xs)"
    by (simp add: keys_keepFirst)
  with Cons show ?case by auto
qed

lemma keepFirst_distinct_id:
  "distinct (map key xs) \<Longrightarrow> key ` set xs \<inter> seen = {} \<Longrightarrow> keepFirst key seen xs = xs"
proof (induction xs arbitrary: seen)
  case Nil
  then show ?case by simp
next
  case (Cons x xs)
  from Cons.prems have "key ` set xs \<inter> insert (key x) seen = {}" by auto
  with Cons show ?case by auto
qed

lemma firstOccurrences_distinct_id:
  "distinct (map key xs) \<Longrightarrow> firstOccurrences key xs = xs"
  by (simp add: firstOccurrences_def keepFirst_distinct_id)

lemma set_firstOccurrences: "set (firstOccurrences key xs) \<subseteq> set xs"
  by (simp add: firstOccurrences_def set_keepFirst)

lemma distinct_firstOccurrences: "distinct (map key (firstOccurrences key xs))"
  by (simp add: firstOccurrences_def distinct_keepFirst)

lemma keys_firstOccurrences: "key ` set (firstOccurrences key xs) = key ` set xs"
  by (simp add: firstOccurrences_def keys_keepFirst)

section \<open>The passes of the merger keep a game's identity\<close>

lemma sanitizeGame_fields:
  "game_name (sanitizeGame lc g) = game_name g"
  "game_parent (sanitizeGame lc g) = game_parent g"
  "game_bios (sanitizeGame lc g) = game_bios g"
  "game_isMachine (sanitizeGame lc g) = game_isMachine g"
  "game_deviceRefs (sanitizeGame lc g) = game_deviceRefs g"
  by (simp_all add: sanitizeGame_def Let_def)

lemma addDeviceRoms_fields:
  "game_name (addDeviceRoms lc m g) = game_name g"
  "game_parent (addDeviceRoms lc m g) = game_parent g"
  "game_bios (addDeviceRoms lc m g) = game_bios g"
  "game_isMachine (addDeviceRoms lc m g) = game_isMachine g"
  "game_deviceRefs (addDeviceRoms lc m g) = game_deviceRefs g"
  by (simp_all add: addDeviceRoms_def)

lemma removeBiosRoms_fields:
  "game_name (removeBiosRoms hc lc m g) = game_name g"
  "game_parent (removeBiosRoms hc lc m g) = game_parent g"
  "game_bios (removeBiosRoms hc lc m g) = game_bios g"
  "game_isMachine (removeBiosRoms hc lc m g) = game_isMachine g"
  "game_deviceRefs (removeBiosRoms hc lc m g) = game_deviceRefs g"
  by (simp_all add: removeBiosRoms_def Let_def split: option.splits)

lemma removeParentRoms_fields:
  "game_name (removeParentRoms hc lc m g) = game_name g"
  "game_parent (removeParentRoms hc lc m g) = game_parent g"
  "game_bios (removeParentRoms hc lc m g) = game_bios g"
  "game_isMachine (removeParentRoms hc lc m g) = game_isMachine g"
  "game_deviceRefs (removeParentRoms hc lc m g) = game_deviceRefs g"
  by (simp_all add: removeParentRoms_def split: option.splits)

lemmas pass_fields = sanitizeGame_fields addDeviceRoms_fields removeBiosRoms_fields
  removeParentRoms_fields


lemma filter_map_preserved:
  "(\<And>x. P (f x) = P x) \<Longrightarrow> filter P (map f xs) = map f (filter P xs)"
  by (induction xs) simp_all


section \<open>Mode MERGED\<close>

lemma mergeParent_MERGED:
  assumes "getMergeRoms options = Some MERGED"
  shows "mergeParent options hc lc cls m =
     (let games = map (\<lambda>g. removeParentRoms hc lc m (removeBiosRoms hc lc m (sanitizeGame lc g))) cls;
          parentGame = List.find isParent games;
          allRoms = cloneRomsOf (filter isClone games)
                    @ (case parentGame of Some p \<Rightarrow> game_roms p | None \<Rightarrow> [])
      in [newMachine parentGame (firstOccurrences hc allRoms)])"
  using assms
  by (simp add: mergeParent_def Let_def filterIdx_indexOf comp_def)










section \<open>Classes and the modes that keep every game\<close>

lemma gamePasses_fields:
  "game_name (gamePasses options hc lc m g) = game_name g"
  "game_parent (gamePasses options hc lc m g) = game_parent g"
  "game_bios (gamePasses options hc lc m g) = game_bios g"
  "game_isMachine (gamePasses options hc lc m g) = game_isMachine g"
  "game_deviceRefs (gamePasses options hc lc m g) = game_deviceRefs g"
  by (simp_all add: gamePasses_def Let_def pass_fields)

lemma gamePasses_isClone: "isClone (gamePasses options hc lc m g) = isClone g"
  by (simp add: isClone_def gamePasses_fields)

lemma gamePasses_isParent: "isParent (gamePasses options hc lc m g) = isParent g"
  by (simp add: isParent_def gamePasses_isClone)

lemma gamePasses_fun:
  "gamePasses options hc lc m =
     (\<lambda>game.
        let game = sanitizeGame lc game;
            game = (if getMergeRoms options = Some FULLNONMERGED
                    then addDeviceRoms lc m game else game);
            game = (if getMergeRoms options \<noteq> Some FULLNONMERGED
                    then removeBiosRoms hc lc m game else game);
            game = (if getMergeRoms options = Some SPLIT \<or> getMergeRoms options = Some MERGED
                    then removeParentRoms hc lc m game else game)
        in game)"
  by (rule ext) (simp add: gamePasses_def)

lemma mergeParent_passes:
  "mergeParent options hc lc cls m =
     (let games = map (gamePasses options hc lc m) cls;
          parentGame = List.find isParent games;
          cloneGames = filter isClone games
      in if getMergeRoms options \<noteq> Some MERGED
         then (case parentGame of Some p \<Rightarrow> p # cloneGames | None \<Rightarrow> cloneGames)
         else [newMachine parentGame
                 (firstOccurrences hc (cloneRomsOf cloneGames
                    @ (case parentGame of Some p \<Rightarrow> game_roms p | None \<Rightarrow> [])))])"
proof (cases "getMergeRoms options")
  case None
  then show ?thesis
    by (simp add: mergeParent_def gamePasses_fun Let_def filterIdx_indexOf comp_def
          cong: option.case_cong)
next
  case (Some mode)
  then show ?thesis
    by (cases mode)
       (simp_all add: mergeParent_def gamePasses_fun Let_def filterIdx_indexOf comp_def
          cong: option.case_cong)
qed

lemma find_none_all_clones: "list_all isClone gs \<Longrightarrow> List.find isParent gs = None"
  by (induction gs) (simp_all add: isParent_def)

lemma filter_all_clones: "list_all isClone gs \<Longrightarrow> filter isClone gs = gs"
  by (induction gs) simp_all

lemma mergeParent_keeps_class:
  assumes "getMergeRoms options \<noteq> Some MERGED" and "list_all isClone (tl cls)"
  shows "mergeParent options hc lc cls m = map (gamePasses options hc lc m) cls"
proof (cases cls)
  case Nil
  with assms(1) show ?thesis by (simp add: mergeParent_passes)
next
  case (Cons g gs)
  let ?T = "gamePasses options hc lc m"
  from assms(2) Cons have "list_all isClone (map ?T gs)"
    by (simp add: list_all_iff gamePasses_isClone)
  then have tl: "List.find isParent (map ?T gs) = None" "filter isClone (map ?T gs) = map ?T gs"
    by (simp_all add: find_none_all_clones filter_all_clones)
  show ?thesis
  proof (cases "isParent g")
    case True
    then have "isParent (?T g)" "\<not> isClone (?T g)"
      by (simp_all add: gamePasses_isParent gamePasses_isClone isParent_def)
    with assms(1) Cons tl show ?thesis
      by (simp add: mergeParent_passes Let_def)
  next
    case False
    then have "\<not> isParent (?T g)" "isClone (?T g)"
      by (simp_all add: gamePasses_isParent gamePasses_isClone isParent_def)
    with assms(1) Cons tl show ?thesis
      by (simp add: mergeParent_passes Let_def)
  qed
qed

lemma parentClasses_shape:
  "cls \<in> set (parentClasses games ps) \<Longrightarrow> list_all isClone (tl cls)"
proof (induction ps)
  case Nil
  then show ?case by simp
next
  case (Cons p ps)
  let ?clones = "if game_name p \<in> set (map game_name ps) then []
                 else filter (\<lambda>c. isClone c \<and> game_parent c = game_name p) games"
  from Cons.prems have "cls = p # ?clones \<or> cls \<in> set (parentClasses games ps)"
    by simp
  then show ?case
  proof
    assume "cls = p # ?clones"
    then have "tl cls = ?clones" by simp
    moreover have "list_all isClone ?clones" by (simp add: list_all_iff)
    ultimately show ?thesis by simp
  next
    assume "cls \<in> set (parentClasses games ps)"
    then show ?thesis by (rule Cons.IH)
  qed
qed

lemma getParents_class_shape:
  assumes "cls \<in> set (getParents d)"
  shows "list_all isClone (tl cls)"
proof -
  from assms have "cls \<in> set (parentClasses (dat_games d) (filter isParent (dat_games d)))
      \<or> (\<exists>c. cls = [c])"
    by (auto simp: getParents_def Let_def)
  then show ?thesis
  proof
    assume "cls \<in> set (parentClasses (dat_games d) (filter isParent (dat_games d)))"
    then show ?thesis by (rule parentClasses_shape)
  next
    assume "\<exists>c. cls = [c]"
    then show ?thesis by auto
  qed
qed

lemma merge_keeps_games:
  assumes "getMergeRoms options \<noteq> None" "getMergeRoms options \<noteq> Some MERGED"
    and "hasParentCloneInfo d"
  shows "dat_games (merge options hc lc d)
           = map (gamePasses options hc lc (gameNamesToGamesOf (dat_games d))) (concat (getParents d))"
proof -
  let ?T = "gamePasses options hc lc (gameNamesToGamesOf (dat_games d))"
  have maps: "map (\<lambda>parent. mergeParent options hc lc parent (gameNamesToGamesOf (dat_games d)))
            (getParents d)
        = map (map ?T) (getParents d)"
    by (rule map_cong [OF refl])
       (simp add: mergeParent_keeps_class [OF assms(2)] getParents_class_shape)
  from assms(1) obtain mode where "getMergeRoms options = Some mode" by auto
  with assms(3) have "dat_games (merge options hc lc d)
      = concat (map (\<lambda>parent. mergeParent options hc lc parent (gameNamesToGamesOf (dat_games d)))
            (getParents d))"
    by (simp add: merge_def Let_def)
  also have "\<dots> = concat (map (map ?T) (getParents d))"
    by (simp only: maps)
  also have "\<dots> = map ?T (concat (getParents d))"
    by (simp add: map_concat)
  finally show ?thesis .
qed


section \<open>The classes partition the games\<close>

lemma concat_map_singleton_if:
  "distinct (map f xs) \<Longrightarrow>
     concat (map (\<lambda>x. if f x = n then X else []) xs) = (if n \<in> f ` set xs then X else [])"
  by (induction xs) auto

lemma concat_map_all_Nil: "(\<And>x. x \<in> set xs \<Longrightarrow> f x = []) \<Longrightarrow> concat (map f xs) = []"
  by (induction xs) simp_all

lemma parentClasses_distinct:
  "distinct (map game_name ps) \<Longrightarrow>
     parentClasses games ps
       = map (\<lambda>p. p # filter (\<lambda>c. isClone c \<and> game_parent c = game_name p) games) ps"
  by (induction ps) simp_all

lemma parentClasses_parents:
  "\<forall>p \<in> set ps. isParent p \<Longrightarrow> filter isParent (concat (parentClasses games ps)) = ps"
proof (induction ps)
  case Nil
  then show ?case by simp
next
  case (Cons p ps)
  have "filter isParent (filter (\<lambda>c. isClone c \<and> game_parent c = game_name p) games) = []"
    by (simp add: filter_empty_conv isParent_def)
  with Cons show ?case by simp
qed

lemma parentClasses_clones_of:
  "\<forall>p \<in> set ps. isParent p \<Longrightarrow>
     filter (\<lambda>c. isClone c \<and> game_parent c = n) (concat (parentClasses games ps))
       = (if n \<in> game_name ` set ps
          then filter (\<lambda>c. isClone c \<and> game_parent c = n) games else [])"
proof (induction ps)
  case Nil
  then show ?case by simp
next
  case (Cons p ps)
  let ?cl = "\<lambda>n c. isClone c \<and> game_parent c = n"
  from Cons.prems have p: "\<not> isClone p" by (simp add: isParent_def)
  have here: "filter (?cl n) (filter (?cl (game_name p)) games)
              = (if game_name p = n then filter (?cl n) games else [])"
  proof (cases "game_name p = n")
    case True
    then have "filter (?cl n) (filter (?cl (game_name p)) games) = filter (?cl n) games"
      by (simp cong: filter_cong)
    with True show ?thesis by simp
  next
    case False
    then have "filter (?cl n) (filter (?cl (game_name p)) games) = []"
      by (simp add: filter_empty_conv)
    with False show ?thesis by simp
  qed
  from Cons have ih: "filter (?cl n) (concat (parentClasses games ps))
       = (if n \<in> game_name ` set ps then filter (?cl n) games else [])"
    by simp
  have split: "filter (?cl n) (concat (parentClasses games (p # ps)))
      = filter (?cl n) (if game_name p \<in> set (map game_name ps) then []
                        else filter (?cl (game_name p)) games)
        @ filter (?cl n) (concat (parentClasses games ps))"
    using p by simp
  show ?case
  proof (cases "game_name p = n")
    case True
    show ?thesis
    proof (cases "n \<in> game_name ` set ps")
      case in_ps: True
      with True have "game_name p \<in> set (map game_name ps)" by simp
      then show ?thesis
        unfolding split ih using in_ps by simp
    next
      case out: False
      with True have "game_name p \<notin> set (map game_name ps)" by simp
      then show ?thesis
        unfolding split ih using out True here by simp
    qed
  next
    case False
    then have "filter (?cl n) (if game_name p \<in> set (map game_name ps) then []
                        else filter (?cl (game_name p)) games) = []"
      using here by simp
    then show ?thesis
      unfolding split ih using False by auto
  qed
qed

lemma parentClasses_no_orphans:
  "\<forall>p \<in> set ps. isParent p \<Longrightarrow> game_name ` set ps \<subseteq> N \<Longrightarrow>
     filter (\<lambda>c. isClone c \<and> game_parent c \<notin> N) (concat (parentClasses games ps)) = []"
proof (induction ps)
  case Nil
  then show ?case by simp
next
  case (Cons p ps)
  from Cons.prems have p: "\<not> isClone p" "game_name p \<in> N" by (simp_all add: isParent_def)
  then have "filter (\<lambda>c. isClone c \<and> game_parent c \<notin> N)
               (filter (\<lambda>c. isClone c \<and> game_parent c = game_name p) games) = []"
    by (simp add: filter_empty_conv)
  with Cons p show ?case by simp
qed

lemma getParents_concat:
  "concat (getParents d) =
     concat (parentClasses (dat_games d) (filter isParent (dat_games d)))
     @ filter (\<lambda>c. isClone c \<and> game_parent c \<notin> set (map game_name (filter isParent (dat_games d))))
              (dat_games d)"
  by (simp add: getParents_def Let_def del: set_map)

lemma classes_parents:
  "filter isParent (concat (getParents d)) = filter isParent (dat_games d)"
  unfolding getParents_concat filter_append
  by (simp add: parentClasses_parents) (auto simp: isParent_def filter_empty_conv)

lemma classes_clones_of:
  "filter (\<lambda>c. isClone c \<and> game_parent c = n) (concat (getParents d))
     = filter (\<lambda>c. isClone c \<and> game_parent c = n) (dat_games d)"
proof -
  let ?G = "dat_games d"
  let ?Ps = "filter isParent ?G"
  let ?cl = "\<lambda>n c. isClone c \<and> game_parent c = n"
  have cls: "filter (?cl n) (concat (parentClasses ?G ?Ps))
        = (if n \<in> game_name ` set ?Ps then filter (?cl n) ?G else [])"
    by (rule parentClasses_clones_of) simp
  have orph: "filter (?cl n) (filter (\<lambda>c. isClone c \<and> game_parent c \<notin> set (map game_name ?Ps)) ?G)
        = (if n \<in> game_name ` set ?Ps then [] else filter (?cl n) ?G)"
    by (auto simp: filter_empty_conv intro: filter_cong)
  show ?thesis
    unfolding getParents_concat filter_append cls orph
    by simp
qed

lemma classes_orphans:
  "filter (\<lambda>c. isClone c \<and> game_parent c \<notin> N) (concat (getParents d))
     = filter (\<lambda>c. isClone c \<and> game_parent c \<notin> N) (dat_games d)"
  if "N = set (map game_name (filter isParent (dat_games d)))"
proof -
  let ?G = "dat_games d"
  let ?Ps = "filter isParent ?G"
  have "filter (\<lambda>c. isClone c \<and> game_parent c \<notin> N) (concat (parentClasses ?G ?Ps)) = []"
    by (rule parentClasses_no_orphans) (simp_all add: that)
  then show ?thesis
    unfolding getParents_concat filter_append
    by (simp add: that del: set_map)
qed

lemma classes_mset: "mset (concat (getParents d)) = mset (dat_games d)"
proof (rule multiset_eqI)
  fix g
  let ?L = "concat (getParents d)" and ?G = "dat_games d"
  show "count (mset ?L) g = count (mset ?G) g"
  proof (cases "isParent g")
    case True
    have "count (mset ?L) g = count (mset (filter isParent ?L)) g"
      using True by simp
    also have "\<dots> = count (mset (filter isParent ?G)) g"
      by (simp only: classes_parents)
    also have "\<dots> = count (mset ?G) g"
      using True by simp
    finally show ?thesis .
  next
    case False
    let ?cl = "\<lambda>c. isClone c \<and> game_parent c = game_parent g"
    from False have c: "?cl g" by (simp add: isParent_def)
    have "count (mset ?L) g = count (mset (filter ?cl ?L)) g"
      using c by simp
    also have "\<dots> = count (mset (filter ?cl ?G)) g"
      by (simp only: classes_clones_of)
    also have "\<dots> = count (mset ?G) g"
      using c by simp
    finally show ?thesis .
  qed
qed

section \<open>Mode NONE\<close>

lemma set_diffGameRoms: "set (diffGameRoms hc parent child) \<subseteq> set (game_roms child)"
  by (auto simp: diffGameRoms_def)

lemma sanitizeGame_roms:
  "game_roms (sanitizeGame lc g)
     = arraySort (romSortFunc lc) (firstOccurrences rom_name (game_roms g))"
  by (simp add: sanitizeGame_def Let_def filterIdx_indexOf)

lemma set_sanitizeGame: "set (game_roms (sanitizeGame lc g)) \<subseteq> set (game_roms g)"
  by (simp add: sanitizeGame_roms set_arraySort set_firstOccurrences)

lemma set_removeBiosRoms: "set (game_roms (removeBiosRoms hc lc m g)) \<subseteq> set (game_roms g)"
  using set_diffGameRoms
  by (auto simp: removeBiosRoms_def Let_def set_arraySort split: option.splits)

lemma set_removeParentRoms: "set (game_roms (removeParentRoms hc lc m g)) \<subseteq> set (game_roms g)"
  using set_diffGameRoms
  by (auto simp: removeParentRoms_def set_arraySort split: option.splits)

lemma gamePasses_NONE:
  "getMergeRoms options = Some NONE \<Longrightarrow>
     gamePasses options hc lc m g = removeBiosRoms hc lc m (sanitizeGame lc g)"
  by (simp add: gamePasses_def)

lemma set_gamePasses_NONE:
  assumes "getMergeRoms options = Some NONE"
  shows "set (game_roms (gamePasses options hc lc m g)) \<subseteq> set (game_roms g)"
  unfolding gamePasses_NONE [OF assms]
  using set_removeBiosRoms [of hc lc m "sanitizeGame lc g"] set_sanitizeGame [of lc g]
  by blast

lemma mset_gamePasses_NONE:
  assumes "getMergeRoms options = Some NONE"
    and "distinct (map rom_name (game_roms g))"
    and "game_bios g = [] \<or> m (game_bios g) = None"
  shows "mset (game_roms (gamePasses options hc lc m g)) = mset (game_roms g)"
proof -
  have "removeBiosRoms hc lc m (sanitizeGame lc g) = sanitizeGame lc g"
    using assms(3) by (auto simp: removeBiosRoms_def sanitizeGame_fields)
  then show ?thesis
    unfolding gamePasses_NONE [OF assms(1)]
    by (simp add: sanitizeGame_roms mset_arraySort firstOccurrences_distinct_id [OF assms(2)])
qed

lemma noneSample_run:
  "hasParentCloneInfo noneSampleDat
   \<and> map game_name (dat_games noneSampleDat) = [''bios'', ''G'', ''C'', ''D'']
   \<and> map romKeys (dat_games noneSampleDat)
       = [[(''b.rom'', ''HB'')], [(''b.rom'', ''HB''), (''g.rom'', ''HG'')], [(''c.rom'', ''HC'')],
          [(''d.rom'', ''H1''), (''d.rom'', ''H2'')]]
   \<and> map game_name (dat_games (merge noneSampleOptions rom_fingerprint codeUnitCompare noneSampleDat))
       = [''bios'', ''G'', ''C'', ''D'']
   \<and> map romKeys
        (dat_games (merge noneSampleOptions rom_fingerprint codeUnitCompare noneSampleDat))
       = [[(''b.rom'', ''HB'')], [(''g.rom'', ''HG'')], [(''c.rom'', ''HC'')], [(''d.rom'', ''H1'')]]"
  by code_simp

lemma noneSample_games:
  "romKeys (dat_games noneSampleDat ! 1) = [(''b.rom'', ''HB''), (''g.rom'', ''HG'')]
   \<and> romKeys (dat_games (merge noneSampleOptions rom_fingerprint codeUnitCompare noneSampleDat) ! 1)
       = [(''g.rom'', ''HG'')]
   \<and> romKeys (dat_games noneSampleDat ! 3) = [(''d.rom'', ''H1''), (''d.rom'', ''H2'')]
   \<and> romKeys (dat_games (merge noneSampleOptions rom_fingerprint codeUnitCompare noneSampleDat) ! 3)
       = [(''d.rom'', ''H1'')]"
  by code_simp


lemma noneSample_classes:
  "concat (getParents noneSampleDat)
     = [mkGame ''bios'' [] [biosRom ''b.rom'' ''HB''],
        (mkGame ''G'' [] [mkRom ''b.rom'' ''HB'', mkRom ''g.rom'' ''HG''])\<lparr> game_bios := ''bios'' \<rparr>,
        mkGame ''C'' ''G'' [mkRom ''c.rom'' ''HC''],
        mkGame ''D'' [] [mkRom ''d.rom'' ''H1'', mkRom ''d.rom'' ''H2'']]"
  by code_simp

lemma noneSample_distinct: "distinct (map game_name (dat_games noneSampleDat))"
  by code_simp

theorem none_mode_changes_rom_sets:
  "getMergeRoms noneSampleOptions = Some NONE
   \<and> map game_name (dat_games noneSampleDat) = [''bios'', ''G'', ''C'', ''D'']
   \<and> map romKeys (dat_games noneSampleDat)
       = [[(''b.rom'', ''HB'')], [(''b.rom'', ''HB''), (''g.rom'', ''HG'')], [(''c.rom'', ''HC'')],
          [(''d.rom'', ''H1''), (''d.rom'', ''H2'')]]
   \<and> map game_name (dat_games (merge noneSampleOptions rom_fingerprint codeUnitCompare noneSampleDat))
       = [''bios'', ''G'', ''C'', ''D'']
   \<and> map romKeys
        (dat_games (merge noneSampleOptions rom_fingerprint codeUnitCompare noneSampleDat))
       = [[(''b.rom'', ''HB'')], [(''g.rom'', ''HG'')], [(''c.rom'', ''HC'')], [(''d.rom'', ''H1'')]]
   \<and> set (romKeys (dat_games (merge noneSampleOptions rom_fingerprint codeUnitCompare
                                  noneSampleDat) ! 1))
       \<noteq> set (romKeys (dat_games noneSampleDat ! 1))
   \<and> set (romKeys (dat_games (merge noneSampleOptions rom_fingerprint codeUnitCompare
                                  noneSampleDat) ! 3))
       \<noteq> set (romKeys (dat_games noneSampleDat ! 3))"
proof -
  have "set (romKeys (dat_games (merge noneSampleOptions rom_fingerprint codeUnitCompare
                                   noneSampleDat) ! 1))
          \<noteq> set (romKeys (dat_games noneSampleDat ! 1))"
       "set (romKeys (dat_games (merge noneSampleOptions rom_fingerprint codeUnitCompare
                                   noneSampleDat) ! 3))
          \<noteq> set (romKeys (dat_games noneSampleDat ! 3))"
    using noneSample_games by auto
  then show ?thesis
    using noneSample_run by (simp add: noneSampleOptions_def)
qed

section \<open>Applying the transform twice\<close>

lemma romSortFunc_totalPreorder: "totalPreorder lc \<Longrightarrow> totalPreorder (romSortFunc lc)"
  unfolding totalPreorder_def romSortFunc_def by blast

lemma diffGameRoms_filter:
  "diffGameRoms hc parent child = filter (keptBy hc parent) (game_roms child)"
  unfolding diffGameRoms_def keptBy_def Let_def
  by (rule filter_cong) (auto split: option.splits)

lemma distinct_names_arraySort:
  "distinct (map rom_name (arraySort c rs)) = distinct (map rom_name rs)"
proof -
  have "mset (map rom_name (arraySort c rs)) = mset (map rom_name rs)"
    by (simp add: mset_arraySort)
  then show ?thesis by (rule mset_eq_imp_distinct_iff)
qed

lemma romsSorted_sanitizeGame: "totalPreorder lc \<Longrightarrow> romsSorted lc (sanitizeGame lc g)"
  by (simp add: romsSorted_def sanitizeGame_roms sorted_arraySort romSortFunc_totalPreorder)

lemma romsDistinct_sanitizeGame: "romsDistinct (sanitizeGame lc g)"
  by (simp add: romsDistinct_def sanitizeGame_roms distinct_names_arraySort
        distinct_firstOccurrences)

lemma romsSorted_removeBiosRoms:
  "totalPreorder lc \<Longrightarrow> romsSorted lc g \<Longrightarrow> romsSorted lc (removeBiosRoms hc lc m g)"
  by (auto simp: romsSorted_def removeBiosRoms_def Let_def sorted_arraySort
        romSortFunc_totalPreorder split: option.splits)

lemma romsSorted_removeParentRoms:
  "totalPreorder lc \<Longrightarrow> romsSorted lc g \<Longrightarrow> romsSorted lc (removeParentRoms hc lc m g)"
  by (auto simp: romsSorted_def removeParentRoms_def sorted_arraySort
        romSortFunc_totalPreorder split: option.splits)

lemma romsDistinct_removeBiosRoms:
  "romsDistinct g \<Longrightarrow> romsDistinct (removeBiosRoms hc lc m g)"
  by (auto simp: romsDistinct_def removeBiosRoms_def Let_def distinct_names_arraySort
        diffGameRoms_filter distinct_map_filter split: option.splits)

lemma romsDistinct_removeParentRoms:
  "romsDistinct g \<Longrightarrow> romsDistinct (removeParentRoms hc lc m g)"
  by (auto simp: romsDistinct_def removeParentRoms_def distinct_names_arraySort
        diffGameRoms_filter distinct_map_filter split: option.splits)

lemma sanitizeGame_id:
  assumes "romsSorted lc g" "romsDistinct g"
  shows "sanitizeGame lc g = g"
proof -
  have "game_roms (sanitizeGame lc g) = game_roms g"
    using assms
    by (simp add: sanitizeGame_roms romsSorted_def romsDistinct_def
          firstOccurrences_distinct_id arraySort_sorted_id)
  then show ?thesis
    by (simp add: sanitizeGame_def Let_def)
qed


lemma set_gamePasses_shrinks:
  assumes "getMergeRoms options \<noteq> Some FULLNONMERGED"
  shows "set (game_roms (gamePasses options hc lc m g)) \<subseteq> set (game_roms g)"
proof -
  let ?s = "sanitizeGame lc g"
  let ?b = "removeBiosRoms hc lc m ?s"
  have s: "set (game_roms ?s) \<subseteq> set (game_roms g)" by (rule set_sanitizeGame)
  have b: "set (game_roms ?b) \<subseteq> set (game_roms ?s)" by (rule set_removeBiosRoms)
  have p: "set (game_roms (removeParentRoms hc lc m ?b)) \<subseteq> set (game_roms ?b)"
    by (rule set_removeParentRoms)
  from assms s b p show ?thesis
    by (auto simp: gamePasses_def Let_def)
qed

lemma romsSorted_gamePasses:
  assumes "getMergeRoms options \<noteq> Some FULLNONMERGED" "totalPreorder lc"
  shows "romsSorted lc (gamePasses options hc lc m g)"
  using assms
  by (simp add: gamePasses_def Let_def romsSorted_sanitizeGame romsSorted_removeBiosRoms
        romsSorted_removeParentRoms)

lemma romsDistinct_gamePasses:
  assumes "getMergeRoms options \<noteq> Some FULLNONMERGED"
  shows "romsDistinct (gamePasses options hc lc m g)"
  using assms
  by (simp add: gamePasses_def Let_def romsDistinct_sanitizeGame romsDistinct_removeBiosRoms
        romsDistinct_removeParentRoms)

lemma entry_has_rom:
  assumes "parentRomNamesToHashCodes hc ref e = Some h"
  shows "\<exists>q \<in> set (game_roms ref). rom_name q = e \<and> hc q = h"
proof -
  obtain p ps where f: "filter (\<lambda>p. rom_name p = e) (game_roms ref) = p # ps"
    and h: "h = hc (last (p # ps))"
    using assms by (auto simp: parentRomNamesToHashCodes_entry split: list.splits)
  have "last (p # ps) \<in> set (filter (\<lambda>p. rom_name p = e) (game_roms ref))"
    unfolding f by (rule last_in_set) simp
  with h show ?thesis by auto
qed

lemma filter_distinct_key:
  "distinct (map f xs) \<Longrightarrow> q \<in> set xs \<Longrightarrow> filter (\<lambda>x. f x = f q) xs = [q]"
proof (induction xs)
  case Nil
  then show ?case by simp
next
  case (Cons x xs)
  show ?case
  proof (cases "x = q")
    case True
    with Cons.prems have "f q \<notin> f ` set xs" by simp
    then have "\<forall>y \<in> set xs. f y \<noteq> f q" by (metis imageI)
    then have "filter (\<lambda>x. f x = f q) xs = []" by (simp add: filter_empty_conv)
    with True show ?thesis by simp
  next
    case False
    with Cons.prems have q: "q \<in> set xs" by simp
    with Cons.prems have "f x \<noteq> f q" by auto
    with Cons q show ?thesis by simp
  qed
qed

lemma entry_of_distinct:
  assumes "distinct (map rom_name (game_roms ref))" "q \<in> set (game_roms ref)"
  shows "parentRomNamesToHashCodes hc ref (rom_name q) = Some (hc q)"
  using filter_distinct_key [OF assms]
  by (simp add: parentRomNamesToHashCodes_entry)

lemma keptBy_smaller_reference:
  assumes "distinct (map rom_name (game_roms ref))"
    and "set (game_roms ref') \<subseteq> set (game_roms ref)"
    and "keptBy hc ref r"
  shows "keptBy hc ref' r"
proof -
  let ?e = "case rom_merge r of None \<Rightarrow> rom_name r | Some m \<Rightarrow> m"
  show ?thesis
  proof (cases "parentRomNamesToHashCodes hc ref' ?e")
    case None
    then show ?thesis by (simp add: keptBy_def)
  next
    case (Some h)
    then obtain q where q: "q \<in> set (game_roms ref')" "rom_name q = ?e" "hc q = h"
      using entry_has_rom by blast
    with assms(2) have "q \<in> set (game_roms ref)" by blast
    from entry_of_distinct [OF assms(1) this, of hc] q
    have "parentRomNamesToHashCodes hc ref ?e = Some h" by simp
    with assms(3) have "h = [] \<or> h \<noteq> hc r" by (simp add: keptBy_def)
    with Some show ?thesis by (simp add: keptBy_def)
  qed
qed

lemma filter_all_kept: "\<forall>x \<in> set xs. P x \<Longrightarrow> filter P xs = xs"
  by (induction xs) simp_all

lemma all_kept_after_bios:
  assumes "set (game_roms g') \<subseteq> set (game_roms (removeBiosRoms hc lc m s))"
    and "game_bios s \<noteq> []" "m (game_bios s) = Some b"
  shows "\<forall>r \<in> set (game_roms g'). keptBy hc (b\<lparr> game_roms := filter rom_bios (game_roms b) \<rparr>) r"
  using assms
  by (auto simp: removeBiosRoms_def Let_def set_arraySort diffGameRoms_filter)

lemma all_kept_after_parent:
  assumes "set (game_roms g') \<subseteq> set (game_roms (removeParentRoms hc lc m s))"
    and "game_parent s \<noteq> []" "m (game_parent s) = Some p"
  shows "\<forall>r \<in> set (game_roms g'). keptBy hc p r"
  using assms
  by (auto simp: removeParentRoms_def set_arraySort diffGameRoms_filter)

lemma removeBiosRoms_again:
  assumes mode: "getMergeRoms options \<noteq> Some FULLNONMERGED"
    and lc: "totalPreorder lc"
    and refs: "\<And>n b. m n = Some b \<Longrightarrow> romsDistinct b"
  shows "removeBiosRoms hc lc (\<lambda>n. map_option (gamePasses options hc lc m) (m n))
           (gamePasses options hc lc m g) = gamePasses options hc lc m g"
proof -
  let ?T = "gamePasses options hc lc m"
  let ?m1 = "\<lambda>n. map_option ?T (m n)"
  show ?thesis
  proof (cases "game_bios g = [] \<or> m (game_bios g) = None")
    case True
    then show ?thesis
      by (auto simp: removeBiosRoms_def gamePasses_fields)
  next
    case False
    then obtain b where b: "game_bios g \<noteq> []" "m (game_bios g) = Some b" by auto
    let ?ref = "b\<lparr> game_roms := filter rom_bios (game_roms b) \<rparr>"
    let ?ref' = "(?T b)\<lparr> game_roms := filter rom_bios (game_roms (?T b)) \<rparr>"
    let ?s = "sanitizeGame lc g"
    have sub: "set (game_roms (?T g)) \<subseteq> set (game_roms (removeBiosRoms hc lc m ?s))"
      using mode set_removeParentRoms [of hc lc m "removeBiosRoms hc lc m ?s"]
      by (auto simp: gamePasses_def Let_def)
    have kept: "\<forall>r \<in> set (game_roms (?T g)). keptBy hc ?ref r"
      by (rule all_kept_after_bios [OF sub]) (simp_all add: b sanitizeGame_fields)
    have "distinct (map rom_name (game_roms ?ref))"
      using refs [OF b(2)] by (simp add: romsDistinct_def distinct_map_filter)
    moreover have "set (game_roms ?ref') \<subseteq> set (game_roms ?ref)"
      using set_gamePasses_shrinks [OF mode, of hc lc m b] by auto
    ultimately have kept': "\<forall>r \<in> set (game_roms (?T g)). keptBy hc ?ref' r"
      using kept keptBy_smaller_reference by blast
    have "diffGameRoms hc ?ref' (?T g) = game_roms (?T g)"
      unfolding diffGameRoms_filter by (rule filter_all_kept [OF kept'])
    moreover have "arraySort (romSortFunc lc) (game_roms (?T g)) = game_roms (?T g)"
      using romsSorted_gamePasses [OF mode lc, of hc m g]
      by (simp add: romsSorted_def arraySort_sorted_id)
    ultimately show ?thesis
      using b by (simp add: removeBiosRoms_def Let_def gamePasses_fields)
  qed
qed

lemma removeParentRoms_again:
  assumes mode: "getMergeRoms options = Some SPLIT"
    and lc: "totalPreorder lc"
    and refs: "\<And>n b. m n = Some b \<Longrightarrow> romsDistinct b"
  shows "removeParentRoms hc lc (\<lambda>n. map_option (gamePasses options hc lc m) (m n))
           (gamePasses options hc lc m g) = gamePasses options hc lc m g"
proof -
  let ?T = "gamePasses options hc lc m"
  from mode have nf: "getMergeRoms options \<noteq> Some FULLNONMERGED" by simp
  show ?thesis
  proof (cases "game_parent g = [] \<or> m (game_parent g) = None")
    case True
    then show ?thesis
      by (auto simp: removeParentRoms_def gamePasses_fields)
  next
    case False
    then obtain p where p: "game_parent g \<noteq> []" "m (game_parent g) = Some p" by auto
    let ?s = "removeBiosRoms hc lc m (sanitizeGame lc g)"
    have Tg: "?T g = removeParentRoms hc lc m ?s"
      using mode by (simp add: gamePasses_def Let_def)
    have kept: "\<forall>r \<in> set (game_roms (?T g)). keptBy hc p r"
      by (rule all_kept_after_parent [where m = m and lc = lc and s = ?s])
         (simp_all add: Tg p pass_fields)
    have "distinct (map rom_name (game_roms p))"
      using refs [OF p(2)] by (simp add: romsDistinct_def)
    moreover have "set (game_roms (?T p)) \<subseteq> set (game_roms p)"
      by (rule set_gamePasses_shrinks [OF nf])
    ultimately have kept': "\<forall>r \<in> set (game_roms (?T g)). keptBy hc (?T p) r"
      using kept keptBy_smaller_reference by blast
    have "diffGameRoms hc (?T p) (?T g) = game_roms (?T g)"
      unfolding diffGameRoms_filter by (rule filter_all_kept [OF kept'])
    moreover have "arraySort (romSortFunc lc) (game_roms (?T g)) = game_roms (?T g)"
      using romsSorted_gamePasses [OF nf lc, of hc m g]
      by (simp add: romsSorted_def arraySort_sorted_id)
    ultimately show ?thesis
      using p by (simp add: removeParentRoms_def gamePasses_fields)
  qed
qed

lemma gamePasses_again:
  assumes mode: "getMergeRoms options = Some NONE \<or> getMergeRoms options = Some SPLIT"
    and lc: "totalPreorder lc"
    and refs: "\<And>n b. m n = Some b \<Longrightarrow> romsDistinct b"
  shows "gamePasses options hc lc (\<lambda>n. map_option (gamePasses options hc lc m) (m n))
           (gamePasses options hc lc m g) = gamePasses options hc lc m g"
proof -
  let ?T = "gamePasses options hc lc m"
  let ?m1 = "\<lambda>n. map_option ?T (m n)"
  from mode have nf: "getMergeRoms options \<noteq> Some FULLNONMERGED" by auto
  have s: "sanitizeGame lc (?T g) = ?T g"
    by (rule sanitizeGame_id) (rule romsSorted_gamePasses [OF nf lc], rule romsDistinct_gamePasses [OF nf])
  have b: "removeBiosRoms hc lc ?m1 (?T g) = ?T g"
    by (rule removeBiosRoms_again [OF nf lc refs])
  from mode show ?thesis
  proof
    assume "getMergeRoms options = Some NONE"
    then show ?thesis
      using s b by (simp add: gamePasses_def [of options hc lc ?m1] Let_def)
  next
    assume sp: "getMergeRoms options = Some SPLIT"
    have "removeParentRoms hc lc ?m1 (?T g) = ?T g"
      by (rule removeParentRoms_again [OF sp lc refs])
    with sp s b show ?thesis
      by (simp add: gamePasses_def [of options hc lc ?m1] Let_def)
  qed
qed


lemma gameNamesToGamesOf_lookup:
  "gameNamesToGamesOf games n =
     (case filter (\<lambda>g. game_name g = n) games of [] \<Rightarrow> None | p # ps \<Rightarrow> Some (last (p # ps)))"
  unfolding gameNamesToGamesOf_def by (simp add: fold_upd_lookup)

lemma gameNamesToGamesOf_member:
  "gameNamesToGamesOf games n = Some g \<Longrightarrow> g \<in> set games"
proof -
  assume a: "gameNamesToGamesOf games n = Some g"
  then obtain p ps where f: "filter (\<lambda>g. game_name g = n) games = p # ps" and g: "g = last (p # ps)"
    by (auto simp: gameNamesToGamesOf_lookup split: list.splits)
  have "last (p # ps) \<in> set (filter (\<lambda>g. game_name g = n) games)"
    unfolding f by (rule last_in_set) simp
  with g show ?thesis by simp
qed

lemma length_filter_distinct_key:
  "distinct (map f xs) \<Longrightarrow> length (filter (\<lambda>x. f x = n) xs) \<le> 1"
proof (induction xs)
  case Nil
  then show ?case by simp
next
  case (Cons x xs)
  show ?case
  proof (cases "f x = n")
    case True
    with Cons.prems have "n \<notin> f ` set xs" by auto
    then have "\<forall>y \<in> set xs. f y \<noteq> n" by (metis imageI)
    then have "filter (\<lambda>x. f x = n) xs = []" by (simp add: filter_empty_conv)
    with True show ?thesis by simp
  next
    case False
    with Cons show ?thesis by simp
  qed
qed

lemma short_lists_mset_eq:
  assumes "mset xs = mset ys" "length xs \<le> 1"
  shows "xs = ys"
proof -
  from assms(1) have len: "length xs = length ys" by (rule mset_eq_length)
  show ?thesis
  proof (cases xs)
    case Nil
    with len show ?thesis by simp
  next
    case (Cons x xs')
    with assms(2) have xs: "xs = [x]" by simp
    with len obtain y where ys: "ys = [y]" by (cases ys) auto
    with xs assms(1) show ?thesis by simp
  qed
qed

lemma gameNamesToGamesOf_classes:
  assumes "distinct (map game_name (dat_games d))"
  shows "gameNamesToGamesOf (concat (getParents d)) n = gameNamesToGamesOf (dat_games d) n"
proof -
  have "mset (concat (getParents d)) = mset (dat_games d)"
    by (rule classes_mset)
  then have "mset (filter (\<lambda>g. game_name g = n) (dat_games d))
               = mset (filter (\<lambda>g. game_name g = n) (concat (getParents d)))"
    by simp
  then have "filter (\<lambda>g. game_name g = n) (dat_games d)
               = filter (\<lambda>g. game_name g = n) (concat (getParents d))"
    by (rule short_lists_mset_eq) (rule length_filter_distinct_key [OF assms])
  then show ?thesis
    by (simp add: gameNamesToGamesOf_lookup)
qed

lemma gameNamesToGamesOf_map:
  assumes "\<And>g. game_name (T g) = game_name g"
  shows "gameNamesToGamesOf (map T games) n = map_option T (gameNamesToGamesOf games n)"
proof -
  have "filter (\<lambda>g. game_name g = n) (map T games) = map T (filter (\<lambda>g. game_name g = n) games)"
    by (simp add: filter_map comp_def assms)
  then show ?thesis
    by (simp add: gameNamesToGamesOf_lookup last_map split: list.splits)
qed

lemma getParents_map:
  assumes names: "distinct (map game_name (dat_games d))"
    and T: "\<And>g. game_name (T g) = game_name g" "\<And>g. game_parent (T g) = game_parent g"
  shows "getParents \<lparr> dat_header = h, dat_games = map T (concat (getParents d)) \<rparr>
           = map (map T) (getParents d)"
proof -
  let ?G = "dat_games d" and ?L = "concat (getParents d)"
  let ?Ps = "filter isParent ?G"
  let ?cl = "\<lambda>n c. isClone c \<and> game_parent c = n"
  let ?N = "set (map game_name ?Ps)"
  let ?orph = "\<lambda>c. isClone c \<and> game_parent c \<notin> ?N"
  have clone: "isClone (T g) = isClone g" for g by (simp add: isClone_def T)
  have parent: "isParent (T g) = isParent g" for g by (simp add: isParent_def clone)
  from names have pn: "distinct (map game_name ?Ps)" by (rule distinct_map_filter)
  have ps: "filter isParent (map T ?L) = map T ?Ps"
    by (simp add: filter_map comp_def parent classes_parents)
  have cl: "filter (?cl (game_name (T p))) (map T ?L) = map T (filter (?cl (game_name p)) ?G)" for p
    by (simp add: filter_map comp_def clone T classes_clones_of)
  have orph: "filter (\<lambda>c. isClone c \<and> game_parent c \<notin> set (map game_name (map T ?Ps))) (map T ?L)
                = map T (filter ?orph ?G)"
  proof -
    have "filter ?orph ?L = filter ?orph ?G"
      by (rule classes_orphans) simp
    then show ?thesis
      by (simp add: filter_map comp_def clone T del: set_map)
  qed
  have gp: "getParents \<lparr> dat_header = h, dat_games = G1 \<rparr>
          = map (\<lambda>p. p # filter (?cl (game_name p)) G1) (filter isParent G1)
            @ map (\<lambda>c. [c])
                (filter (\<lambda>c. isClone c \<and> game_parent c \<notin> set (map game_name (filter isParent G1))) G1)"
    if "distinct (map game_name (filter isParent G1))" for G1
    using that by (simp add: getParents_def Let_def parentClasses_distinct del: set_map)
  have "getParents \<lparr> dat_header = h, dat_games = map T ?L \<rparr>
          = map (\<lambda>p. p # filter (?cl (game_name p)) (map T ?L)) (map T ?Ps)
            @ map (\<lambda>c. [c]) (map T (filter ?orph ?G))"
  proof -
    have "distinct (map game_name (filter isParent (map T ?L)))"
      unfolding ps using pn by (simp add: comp_def T)
    from gp [OF this] show ?thesis
      by (simp only: ps orph)
  qed
  also have "\<dots> = map (\<lambda>p. T p # map T (filter (?cl (game_name p)) ?G)) ?Ps
                      @ map (\<lambda>c. [T c]) (filter ?orph ?G)"
    by (simp add: comp_def cl)
  also have "\<dots> = map (map T) (getParents d)"
    by (simp add: getParents_def Let_def comp_def parentClasses_distinct [OF pn] del: set_map)
  finally show ?thesis .
qed


lemma merge_no_clones: "\<not> hasParentCloneInfo x \<Longrightarrow> merge options hc lc x = x"
  by (simp add: merge_def)

lemma merge_expand:
  assumes "getMergeRoms options \<noteq> None" "hasParentCloneInfo d"
  shows "merge options hc lc d =
           \<lparr> dat_header = (dat_header d)\<lparr> romNamesContainDirectories :=
                                             (getMergeRoms options = Some MERGED) \<rparr>,
             dat_games = dat_games (merge options hc lc d) \<rparr>"
  using assms by (auto simp: merge_def Let_def)

lemma merge_twice_keeping_modes:
  assumes mode: "getMergeRoms options = Some NONE \<or> getMergeRoms options = Some SPLIT"
    and lc: "totalPreorder lc"
    and names: "distinct (map game_name (dat_games d))"
    and roms: "\<forall>g \<in> set (dat_games d). distinct (map rom_name (game_roms g))"
  shows "merge options hc lc (merge options hc lc d) = merge options hc lc d"
proof (cases "hasParentCloneInfo d")
  case False
  then show ?thesis by (simp add: merge_def)
next
  case True
  let ?m = "gameNamesToGamesOf (dat_games d)"
  let ?T = "gamePasses options hc lc ?m"
  let ?L = "concat (getParents d)"
  let ?h = "(dat_header d)\<lparr> romNamesContainDirectories := False \<rparr>"
  let ?d1 = "\<lparr> dat_header = ?h, dat_games = map ?T ?L \<rparr>"
  from mode have m1: "getMergeRoms options \<noteq> None" and m2: "getMergeRoms options \<noteq> Some MERGED"
    by auto
  have d1: "merge options hc lc d = ?d1"
    using merge_expand [OF m1 True, of hc lc] merge_keeps_games [OF m1 m2 True, of hc lc] m2
    by simp
  have "merge options hc lc ?d1 = ?d1"
  proof (cases "hasParentCloneInfo ?d1")
    case False
    then show ?thesis by (simp add: merge_def)
  next
    case c1: True
    have refs: "romsDistinct b" if "?m n = Some b" for n b
      using gameNamesToGamesOf_member [OF that] roms by (simp add: romsDistinct_def)
    have g1: "gameNamesToGamesOf (dat_games ?d1) = (\<lambda>n. map_option ?T (?m n))"
      by (rule ext)
         (simp add: gameNamesToGamesOf_map gamePasses_fields gameNamesToGamesOf_classes [OF names])
    have "getParents ?d1 = map (map ?T) (getParents d)"
      by (rule getParents_map [OF names]) (simp_all add: gamePasses_fields)
    then have p1: "concat (getParents ?d1) = map ?T ?L"
      by (simp only: map_concat)
    have "dat_games (merge options hc lc ?d1)
            = map (gamePasses options hc lc (gameNamesToGamesOf (dat_games ?d1)))
                  (concat (getParents ?d1))"
      by (rule merge_keeps_games [OF m1 m2 c1])
    also have "\<dots> = map (gamePasses options hc lc (\<lambda>n. map_option ?T (?m n))) (map ?T ?L)"
      by (simp only: g1 p1)
    also have "\<dots> = map ?T ?L"
      by (simp add: gamePasses_again [OF mode lc refs])
    finally have games: "dat_games (merge options hc lc ?d1) = map ?T ?L" .
    show ?thesis
      using merge_expand [OF m1 c1, of hc lc] games m2 by simp
  qed
  then show ?thesis by (simp only: d1)
qed

lemma newMachine_not_clone:
  "List.find isParent games = pg \<Longrightarrow> \<not> isClone (newMachine pg rs)"
  by (cases pg) (auto simp: newMachine_def isClone_def isParent_def find_Some_iff)

lemma merge_twice_MERGED:
  assumes "getMergeRoms options = Some MERGED"
  shows "merge options hc lc (merge options hc lc d) = merge options hc lc d"
proof (cases "hasParentCloneInfo d")
  case False
  then show ?thesis by (simp add: merge_def)
next
  case True
  have "\<not> isClone g" if "g \<in> set (dat_games (merge options hc lc d))" for g
  proof -
    from that True assms obtain cls where
      "g \<in> set (mergeParent options hc lc cls (gameNamesToGamesOf (dat_games d)))"
      by (auto simp: merge_def Let_def)
    then show ?thesis
      by (auto simp: mergeParent_MERGED [OF assms] Let_def newMachine_not_clone)
  qed
  then have "\<not> hasParentCloneInfo (merge options hc lc d)"
    by (auto simp: hasParentCloneInfo_def list_ex_iff)
  then show ?thesis
    by (rule merge_no_clones)
qed


text \<open>
  C8, as the code has it.  Without a merge mode and in mode MERGED the transform applied
  twice gives the DAT it gives when applied once: the merged DAT has no clone left, and the
  second application returns it as it is.  In the modes NONE and SPLIT the same holds for
  a consistent comparator when the names of the games are distinct and no game has two
  ROMs of one name.  Mode FULLNONMERGED is left out: a second application prepends the
  device ROMs again.
\<close>

theorem merge_twice_is_merge_once:
  "(getMergeRoms options = None \<or> getMergeRoms options = Some MERGED \<longrightarrow>
      merge options hashCode lc (merge options hashCode lc d) = merge options hashCode lc d)
   \<and> ((getMergeRoms options = Some NONE \<or> getMergeRoms options = Some SPLIT)
       \<and> totalPreorder lc
       \<and> distinct (map game_name (dat_games d))
       \<and> (\<forall>g \<in> set (dat_games d). distinct (map rom_name (game_roms g))) \<longrightarrow>
      merge options hashCode lc (merge options hashCode lc d) = merge options hashCode lc d)"
proof (intro conjI impI)
  assume "getMergeRoms options = None \<or> getMergeRoms options = Some MERGED"
  then show "merge options hashCode lc (merge options hashCode lc d) = merge options hashCode lc d"
  proof
    assume "getMergeRoms options = None"
    then show ?thesis by (simp add: merge_def)
  next
    assume "getMergeRoms options = Some MERGED"
    then show ?thesis by (rule merge_twice_MERGED)
  qed
next
  assume a: "(getMergeRoms options = Some NONE \<or> getMergeRoms options = Some SPLIT)
       \<and> totalPreorder lc
       \<and> distinct (map game_name (dat_games d))
       \<and> (\<forall>g \<in> set (dat_games d). distinct (map rom_name (game_roms g)))"
  show "merge options hashCode lc (merge options hashCode lc d) = merge options hashCode lc d"
    by (rule merge_twice_keeping_modes) (use a in blast)+
qed

lemma splitSample_wellformed:
  "distinct (map game_name (dat_games splitSampleDat))
   \<and> list_all (\<lambda>g. distinct (map rom_name (game_roms g))) (dat_games splitSampleDat)"
  by code_simp

theorem merge_twice_is_merge_once_witness:
  "getMergeRoms mergedSampleOptions = Some MERGED
   \<and> merge mergedSampleOptions sampleContentHash codeUnitCompare
        (merge mergedSampleOptions sampleContentHash codeUnitCompare mergedSampleDat)
       = merge mergedSampleOptions sampleContentHash codeUnitCompare mergedSampleDat
   \<and> getMergeRoms splitSampleOptions = Some SPLIT
   \<and> totalPreorder codeUnitCompare
   \<and> distinct (map game_name (dat_games splitSampleDat))
   \<and> list_all (\<lambda>g. distinct (map rom_name (game_roms g))) (dat_games splitSampleDat)
   \<and> merge splitSampleOptions rom_fingerprint codeUnitCompare
        (merge splitSampleOptions rom_fingerprint codeUnitCompare splitSampleDat)
       = merge splitSampleOptions rom_fingerprint codeUnitCompare splitSampleDat"
proof -
  have m: "getMergeRoms mergedSampleOptions = Some MERGED"
    by (simp add: mergedSampleOptions_def)
  have s: "getMergeRoms splitSampleOptions = Some SPLIT"
    by (simp add: splitSampleOptions_def)
  have w: "\<forall>g \<in> set (dat_games splitSampleDat). distinct (map rom_name (game_roms g))"
    using splitSample_wellformed by (simp add: list_all_iff)
  from merge_twice_is_merge_once [of mergedSampleOptions sampleContentHash codeUnitCompare
         mergedSampleDat] m
  have 1: "merge mergedSampleOptions sampleContentHash codeUnitCompare
        (merge mergedSampleOptions sampleContentHash codeUnitCompare mergedSampleDat)
       = merge mergedSampleOptions sampleContentHash codeUnitCompare mergedSampleDat"
    by blast
  from merge_twice_is_merge_once [of splitSampleOptions rom_fingerprint codeUnitCompare
         splitSampleDat] s codeUnitCompare_totalPreorder splitSample_wellformed w
  have 2: "merge splitSampleOptions rom_fingerprint codeUnitCompare
        (merge splitSampleOptions rom_fingerprint codeUnitCompare splitSampleDat)
       = merge splitSampleOptions rom_fingerprint codeUnitCompare splitSampleDat"
    by blast
  from m s 1 2 codeUnitCompare_totalPreorder splitSample_wellformed show ?thesis
    by simp
qed

lemma fullSample_once:
  "map (\<lambda>g. (game_name g, map rom_name (game_roms g)))
     (dat_games (merge fullSampleOptions rom_fingerprint codeUnitCompare fullSampleDat))
   = [(''E'', [''e1'']), (''D'', [''d1'', ''e1'']), (''M'', [''d1'', ''m1'']), (''C'', [''c1''])]"
  by code_simp

lemma fullSample_twice:
  "map (\<lambda>g. (game_name g, map rom_name (game_roms g)))
     (dat_games (merge fullSampleOptions rom_fingerprint codeUnitCompare
        (merge fullSampleOptions rom_fingerprint codeUnitCompare fullSampleDat)))
   = [(''E'', [''e1'']), (''D'', [''d1'', ''e1'', ''e1'']),
      (''M'', [''d1'', ''d1'', ''e1'', ''m1'']), (''C'', [''c1''])]"
  by code_simp

lemma fullSample_once_sanitized:
  "map (\<lambda>g. (game_name g, map rom_name (game_roms g)))
     (map (sanitizeGame codeUnitCompare)
        (dat_games (merge fullSampleOptions rom_fingerprint codeUnitCompare fullSampleDat)))
   = [(''E'', [''e1'']), (''D'', [''d1'', ''e1'']), (''M'', [''d1'', ''m1'']), (''C'', [''c1''])]"
  by code_simp

lemma fullSample_twice_sanitized:
  "map (\<lambda>g. (game_name g, map rom_name (game_roms g)))
     (map (sanitizeGame codeUnitCompare)
        (dat_games (merge fullSampleOptions rom_fingerprint codeUnitCompare
           (merge fullSampleOptions rom_fingerprint codeUnitCompare fullSampleDat))))
   = [(''E'', [''e1'']), (''D'', [''d1'', ''e1'']),
      (''M'', [''d1'', ''e1'', ''m1'']), (''C'', [''c1''])]"
  by code_simp

lemma splitRepeat_once:
  "map (\<lambda>g. (game_name g, map rom_name (game_roms g)))
     (dat_games (merge splitSampleOptions rom_fingerprint codeUnitCompare splitRepeatDat))
   = [(''P'', [''x'']), (''C'', [''x''])]"
  by code_simp

lemma splitRepeat_twice:
  "map (\<lambda>g. (game_name g, map rom_name (game_roms g)))
     (dat_games (merge splitSampleOptions rom_fingerprint codeUnitCompare
        (merge splitSampleOptions rom_fingerprint codeUnitCompare splitRepeatDat)))
   = [(''P'', [''x'']), (''C'', [])]"
  by code_simp

theorem merge_twice_differs:
  "merge fullSampleOptions rom_fingerprint codeUnitCompare
     (merge fullSampleOptions rom_fingerprint codeUnitCompare fullSampleDat)
     \<noteq> merge fullSampleOptions rom_fingerprint codeUnitCompare fullSampleDat
   \<and> map (sanitizeGame codeUnitCompare)
       (dat_games (merge fullSampleOptions rom_fingerprint codeUnitCompare
          (merge fullSampleOptions rom_fingerprint codeUnitCompare fullSampleDat)))
     \<noteq> map (sanitizeGame codeUnitCompare)
         (dat_games (merge fullSampleOptions rom_fingerprint codeUnitCompare fullSampleDat))
   \<and> merge splitSampleOptions rom_fingerprint codeUnitCompare
       (merge splitSampleOptions rom_fingerprint codeUnitCompare splitRepeatDat)
     \<noteq> merge splitSampleOptions rom_fingerprint codeUnitCompare splitRepeatDat"
proof (intro conjI notI)
  assume "merge fullSampleOptions rom_fingerprint codeUnitCompare
     (merge fullSampleOptions rom_fingerprint codeUnitCompare fullSampleDat)
     = merge fullSampleOptions rom_fingerprint codeUnitCompare fullSampleDat"
  with fullSample_twice have
    "map (\<lambda>g. (game_name g, map rom_name (game_roms g)))
       (dat_games (merge fullSampleOptions rom_fingerprint codeUnitCompare fullSampleDat))
     = [(''E'', [''e1'']), (''D'', [''d1'', ''e1'', ''e1'']),
        (''M'', [''d1'', ''d1'', ''e1'', ''m1'']), (''C'', [''c1''])]"
    by simp
  with fullSample_once show False by simp
next
  assume "map (sanitizeGame codeUnitCompare)
       (dat_games (merge fullSampleOptions rom_fingerprint codeUnitCompare
          (merge fullSampleOptions rom_fingerprint codeUnitCompare fullSampleDat)))
     = map (sanitizeGame codeUnitCompare)
         (dat_games (merge fullSampleOptions rom_fingerprint codeUnitCompare fullSampleDat))"
  with fullSample_twice_sanitized have
    "map (\<lambda>g. (game_name g, map rom_name (game_roms g)))
     (map (sanitizeGame codeUnitCompare)
        (dat_games (merge fullSampleOptions rom_fingerprint codeUnitCompare fullSampleDat)))
     = [(''E'', [''e1'']), (''D'', [''d1'', ''e1'']),
        (''M'', [''d1'', ''e1'', ''m1'']), (''C'', [''c1''])]"
    by simp
  with fullSample_once_sanitized show False by simp
next
  assume "merge splitSampleOptions rom_fingerprint codeUnitCompare
       (merge splitSampleOptions rom_fingerprint codeUnitCompare splitRepeatDat)
     = merge splitSampleOptions rom_fingerprint codeUnitCompare splitRepeatDat"
  with splitRepeat_twice have
    "map (\<lambda>g. (game_name g, map rom_name (game_roms g)))
     (dat_games (merge splitSampleOptions rom_fingerprint codeUnitCompare splitRepeatDat))
     = [(''P'', [''x'']), (''C'', [])]"
    by simp
  with splitRepeat_once show False by simp
qed

section \<open>Mode NONE, game by game\<close>

lemma gamePasses_NONE_roms:
  assumes "getMergeRoms options = Some NONE"
  shows "gamePasses options hc lc m g = g\<lparr> game_roms := noneModeRoms hc lc m g \<rparr>"
proof -
  let ?s = "arraySort (romSortFunc lc) (firstOccurrences rom_name (game_roms g))"
  have san: "sanitizeGame lc g = g\<lparr> game_roms := ?s \<rparr>"
    by (simp add: sanitizeGame_def Let_def filterIdx_indexOf)
  show ?thesis
  proof (cases "game_bios g = []")
    case True
    then show ?thesis
      unfolding gamePasses_NONE [OF assms] san
      by (simp add: removeBiosRoms_def noneModeRoms_def Let_def)
  next
    case False
    show ?thesis
    proof (cases "m (game_bios g)")
      case None
      with False show ?thesis
        unfolding gamePasses_NONE [OF assms] san
        by (simp add: removeBiosRoms_def noneModeRoms_def Let_def)
    next
      case (Some b)
      with False show ?thesis
        unfolding gamePasses_NONE [OF assms] san
        by (simp add: removeBiosRoms_def noneModeRoms_def Let_def diffGameRoms_filter)
    qed
  qed
qed

lemma set_noneModeRoms:
  "set (noneModeRoms hc lc m g) =
     {r \<in> set (firstOccurrences rom_name (game_roms g)).
        game_bios g = [] \<or>
        (case m (game_bios g) of
           None \<Rightarrow> True
         | Some b \<Rightarrow> keptBy hc (b\<lparr> game_roms := filter rom_bios (game_roms b) \<rparr>) r)}"
  by (auto simp: noneModeRoms_def Let_def set_arraySort split: option.splits)

lemma noneModeRoms_subset: "set (noneModeRoms hc lc m g) \<subseteq> set (game_roms g)"
  unfolding set_noneModeRoms using set_firstOccurrences [of rom_name "game_roms g"] by blast

lemma firstOccurrences_same_pairs:
  assumes "\<forall>r \<in> set rs. \<forall>r' \<in> set rs. rom_name r = rom_name r' \<longrightarrow> hc r = hc r'"
  shows "(\<lambda>r. (rom_name r, hc r)) ` set (firstOccurrences rom_name rs)
           = (\<lambda>r. (rom_name r, hc r)) ` set rs"
proof
  show "(\<lambda>r. (rom_name r, hc r)) ` set (firstOccurrences rom_name rs)
          \<subseteq> (\<lambda>r. (rom_name r, hc r)) ` set rs"
    using set_firstOccurrences [of rom_name rs] by blast
next
  show "(\<lambda>r. (rom_name r, hc r)) ` set rs
          \<subseteq> (\<lambda>r. (rom_name r, hc r)) ` set (firstOccurrences rom_name rs)"
  proof
    fix x assume "x \<in> (\<lambda>r. (rom_name r, hc r)) ` set rs"
    then obtain r where r: "r \<in> set rs" "x = (rom_name r, hc r)" by auto
    then have "rom_name r \<in> rom_name ` set (firstOccurrences rom_name rs)"
      by (simp add: keys_firstOccurrences)
    then obtain r0 where r0: "r0 \<in> set (firstOccurrences rom_name rs)" "rom_name r0 = rom_name r"
      by auto
    then have "r0 \<in> set rs" using set_firstOccurrences [of rom_name rs] by blast
    with assms r r0 have "hc r0 = hc r" by blast
    with r r0 have "x = (rom_name r0, hc r0)" by simp
    with r0(1) show "x \<in> (\<lambda>r. (rom_name r, hc r)) ` set (firstOccurrences rom_name rs)"
      by (rule_tac image_eqI)
  qed
qed

lemma noneModeRoms_conserves:
  assumes "game_bios g = [] \<or> m (game_bios g) = None"
    and "\<forall>r \<in> set (game_roms g). \<forall>r' \<in> set (game_roms g).
           rom_name r = rom_name r' \<longrightarrow> hc r = hc r'"
  shows "(\<lambda>r. (rom_name r, hc r)) ` set (noneModeRoms hc lc m g)
           = (\<lambda>r. (rom_name r, hc r)) ` set (game_roms g)"
proof -
  from assms(1) have "set (noneModeRoms hc lc m g) = set (firstOccurrences rom_name (game_roms g))"
    unfolding set_noneModeRoms by auto
  then show ?thesis
    by (simp only: firstOccurrences_same_pairs [OF assms(2)])
qed

text \<open>
  C3, as the code has it.  For a DAT with parent/clone information, mode NONE returns the
  header with the directories flag off and the games of the classes, each with its ROMs
  replaced: the ROMs of first occurrence by name, sorted, minus (by the diff rule) the
  BIOS-flagged ROMs of the game's BIOS set when the DAT has that set.  A DAT without
  parent/clone information is returned as it is.  The classes hold every game of the DAT
  once, so the game count is preserved.  The ROMs of a game after the transform are among
  its ROMs before, and the set of (name, hash code) is preserved for every game whose
  BIOS reference is empty or names no game of the DAT and whose ROMs of one name have one
  hash code.
\<close>

theorem none_mode_sanitises_and_subtracts_bios:
  assumes "getMergeRoms options = Some NONE"
  shows "(hasParentCloneInfo d \<longrightarrow>
            merge options hashCode lc d =
              \<lparr> dat_header = (dat_header d)\<lparr> romNamesContainDirectories := False \<rparr>,
                dat_games = map (\<lambda>g. g\<lparr> game_roms :=
                                          noneModeRoms hashCode lc (gameNamesToGamesOf (dat_games d)) g \<rparr>)
                                (concat (getParents d)) \<rparr>)
       \<and> (\<not> hasParentCloneInfo d \<longrightarrow> merge options hashCode lc d = d)
       \<and> mset (concat (getParents d)) = mset (dat_games d)
       \<and> length (dat_games (merge options hashCode lc d)) = length (dat_games d)
       \<and> (\<forall>m g. set (noneModeRoms hashCode lc m g) \<subseteq> set (game_roms g))
       \<and> (\<forall>m g. set (noneModeRoms hashCode lc m g) =
             {r \<in> set (firstOccurrences rom_name (game_roms g)).
                game_bios g = [] \<or>
                (case m (game_bios g) of
                   None \<Rightarrow> True
                 | Some b \<Rightarrow> keptBy hashCode (b\<lparr> game_roms := filter rom_bios (game_roms b) \<rparr>) r)})
       \<and> (\<forall>m g. (game_bios g = [] \<or> m (game_bios g) = None)
                 \<and> (\<forall>r \<in> set (game_roms g). \<forall>r' \<in> set (game_roms g).
                       rom_name r = rom_name r' \<longrightarrow> hashCode r = hashCode r') \<longrightarrow>
             (\<lambda>r. (rom_name r, hashCode r)) ` set (noneModeRoms hashCode lc m g)
               = (\<lambda>r. (rom_name r, hashCode r)) ` set (game_roms g))"
proof -
  let ?m = "gameNamesToGamesOf (dat_games d)"
  let ?N = "\<lambda>g. g\<lparr> game_roms := noneModeRoms hashCode lc ?m g \<rparr>"
  from assms have m1: "getMergeRoms options \<noteq> None" and m2: "getMergeRoms options \<noteq> Some MERGED"
    by simp_all
  have passes: "gamePasses options hashCode lc ?m = ?N"
    by (rule ext) (rule gamePasses_NONE_roms [OF assms])
  have pin: "merge options hashCode lc d =
              \<lparr> dat_header = (dat_header d)\<lparr> romNamesContainDirectories := False \<rparr>,
                dat_games = map ?N (concat (getParents d)) \<rparr>"
    if c: "hasParentCloneInfo d"
  proof -
    have "dat_games (merge options hashCode lc d) = map ?N (concat (getParents d))"
      using merge_keeps_games [OF m1 m2 c, of hashCode lc] by (simp only: passes)
    with merge_expand [OF m1 c, of hashCode lc] m2 show ?thesis by simp
  qed
  have same: "merge options hashCode lc d = d" if "\<not> hasParentCloneInfo d"
    using that by (rule merge_no_clones)
  have ms: "mset (concat (getParents d)) = mset (dat_games d)"
    by (rule classes_mset)
  have len: "length (dat_games (merge options hashCode lc d)) = length (dat_games d)"
  proof (cases "hasParentCloneInfo d")
    case True
    from pin [OF True] have "length (dat_games (merge options hashCode lc d))
        = length (concat (getParents d))"
      by simp
    with mset_eq_length [OF ms] show ?thesis by simp
  next
    case False
    from same [OF False] show ?thesis by simp
  qed
  show ?thesis
  proof (intro conjI allI impI)
    assume "hasParentCloneInfo d"
    then show "merge options hashCode lc d =
              \<lparr> dat_header = (dat_header d)\<lparr> romNamesContainDirectories := False \<rparr>,
                dat_games = map ?N (concat (getParents d)) \<rparr>"
      by (rule pin)
  next
    assume "\<not> hasParentCloneInfo d"
    then show "merge options hashCode lc d = d" by (rule same)
  next
    show "mset (concat (getParents d)) = mset (dat_games d)" by (rule ms)
  next
    show "length (dat_games (merge options hashCode lc d)) = length (dat_games d)" by (rule len)
  next
    fix m :: "string \<rightharpoonup> game" and g :: game
    show "set (noneModeRoms hashCode lc m g) \<subseteq> set (game_roms g)"
      by (rule noneModeRoms_subset)
  next
    fix m :: "string \<rightharpoonup> game" and g :: game
    show "set (noneModeRoms hashCode lc m g) =
             {r \<in> set (firstOccurrences rom_name (game_roms g)).
                game_bios g = [] \<or>
                (case m (game_bios g) of
                   None \<Rightarrow> True
                 | Some b \<Rightarrow> keptBy hashCode (b\<lparr> game_roms := filter rom_bios (game_roms b) \<rparr>) r)}"
      by (rule set_noneModeRoms)
  next
    fix m :: "string \<rightharpoonup> game" and g :: game
    assume a: "(game_bios g = [] \<or> m (game_bios g) = None)
                 \<and> (\<forall>r \<in> set (game_roms g). \<forall>r' \<in> set (game_roms g).
                       rom_name r = rom_name r' \<longrightarrow> hashCode r = hashCode r')"
    from a have a1: "game_bios g = [] \<or> m (game_bios g) = None"
      by (rule conjunct1)
    from a have a2: "\<forall>r \<in> set (game_roms g). \<forall>r' \<in> set (game_roms g).
                 rom_name r = rom_name r' \<longrightarrow> hashCode r = hashCode r'"
      by (rule conjunct2)
    show "(\<lambda>r. (rom_name r, hashCode r)) ` set (noneModeRoms hashCode lc m g)
               = (\<lambda>r. (rom_name r, hashCode r)) ` set (game_roms g)"
      using a1 a2 by (rule noneModeRoms_conserves [where m = m and g = g and hc = hashCode])
  qed
qed

lemma repeatedRomGame_facts:
  "game_bios repeatedRomGame = []
   \<and> map romKeys [repeatedRomGame] = [[(''r.rom'', ''HR''), (''r.rom'', ''HR'')]]
   \<and> map rom_name (noneModeRoms rom_fingerprint codeUnitCompare Map.empty repeatedRomGame)
       = [''r.rom'']"
  by code_simp

theorem none_mode_sanitises_and_subtracts_bios_witness:
  "getMergeRoms noneSampleOptions = Some NONE
   \<and> hasParentCloneInfo noneSampleDat
   \<and> dat_games (merge noneSampleOptions rom_fingerprint codeUnitCompare noneSampleDat)
       = map (\<lambda>g. g\<lparr> game_roms := noneModeRoms rom_fingerprint codeUnitCompare
                                      (gameNamesToGamesOf (dat_games noneSampleDat)) g \<rparr>)
             (concat (getParents noneSampleDat))
   \<and> map romKeys (dat_games (merge noneSampleOptions rom_fingerprint codeUnitCompare noneSampleDat))
       = [[(''b.rom'', ''HB'')], [(''g.rom'', ''HG'')], [(''c.rom'', ''HC'')], [(''d.rom'', ''H1'')]]
   \<and> length (dat_games (merge noneSampleOptions rom_fingerprint codeUnitCompare noneSampleDat)) = 4
   \<and> game_bios repeatedRomGame = []
   \<and> map romKeys [repeatedRomGame] = [[(''r.rom'', ''HR''), (''r.rom'', ''HR'')]]
   \<and> (\<lambda>r. (rom_name r, rom_fingerprint r))
         ` set (noneModeRoms rom_fingerprint codeUnitCompare Map.empty repeatedRomGame)
       = (\<lambda>r. (rom_name r, rom_fingerprint r)) ` set (game_roms repeatedRomGame)"
proof -
  let ?out = "merge noneSampleOptions rom_fingerprint codeUnitCompare noneSampleDat"
  have h: "getMergeRoms noneSampleOptions = Some NONE"
    by (simp add: noneSampleOptions_def)
  have c: "hasParentCloneInfo noneSampleDat"
    using noneSample_run by (rule conjunct1)
  have keys: "map romKeys (dat_games ?out)
       = [[(''b.rom'', ''HB'')], [(''g.rom'', ''HG'')], [(''c.rom'', ''HC'')], [(''d.rom'', ''H1'')]]"
    using noneSample_run by blast
  note t = none_mode_sanitises_and_subtracts_bios
             [OF h, of noneSampleDat rom_fingerprint codeUnitCompare]
  from t c have pin: "?out =
      \<lparr> dat_header = (dat_header noneSampleDat)\<lparr> romNamesContainDirectories := False \<rparr>,
        dat_games = map (\<lambda>g. g\<lparr> game_roms := noneModeRoms rom_fingerprint codeUnitCompare
                                      (gameNamesToGamesOf (dat_games noneSampleDat)) g \<rparr>)
             (concat (getParents noneSampleDat)) \<rparr>"
    by (elim conjE) (erule mp)
  have games: "dat_games ?out
       = map (\<lambda>g. g\<lparr> game_roms := noneModeRoms rom_fingerprint codeUnitCompare
                                      (gameNamesToGamesOf (dat_games noneSampleDat)) g \<rparr>)
             (concat (getParents noneSampleDat))"
    by (subst pin) (rule dat.select_convs)
  from t have "length (dat_games ?out) = length (dat_games noneSampleDat)"
    by (elim conjE)
  then have len: "length (dat_games ?out) = 4"
    by (simp add: noneSampleDat_def)
  have bios: "game_bios repeatedRomGame = []"
    using repeatedRomGame_facts by (rule conjunct1)
  have rkeys: "map romKeys [repeatedRomGame] = [[(''r.rom'', ''HR''), (''r.rom'', ''HR'')]]"
    using repeatedRomGame_facts by blast
  have same: "\<forall>r \<in> set (game_roms repeatedRomGame). \<forall>r' \<in> set (game_roms repeatedRomGame).
                rom_name r = rom_name r' \<longrightarrow> rom_fingerprint r = rom_fingerprint r'"
    by (simp add: repeatedRomGame_def mkGame_def mkRom_def)
  from t have every: "\<forall>m g. (game_bios g = [] \<or> m (game_bios g) = None)
                 \<and> (\<forall>r \<in> set (game_roms g). \<forall>r' \<in> set (game_roms g).
                       rom_name r = rom_name r' \<longrightarrow> rom_fingerprint r = rom_fingerprint r') \<longrightarrow>
             (\<lambda>r. (rom_name r, rom_fingerprint r))
                ` set (noneModeRoms rom_fingerprint codeUnitCompare m g)
               = (\<lambda>r. (rom_name r, rom_fingerprint r)) ` set (game_roms g)"
    by (elim conjE)
  have cons: "(\<lambda>r. (rom_name r, rom_fingerprint r))
         ` set (noneModeRoms rom_fingerprint codeUnitCompare Map.empty repeatedRomGame)
       = (\<lambda>r. (rom_name r, rom_fingerprint r)) ` set (game_roms repeatedRomGame)"
    by (rule every [rule_format, where m = Map.empty and g = repeatedRomGame])
       (intro conjI disjI1 bios same)
  show ?thesis
    by (intro conjI) (rule h c games keys len bios rkeys cons)+
qed

end
